theory Spec2Isabelle
  imports Main "HOL-Library.Char_ord" "HOL-Library.List_Lexorder" "HOL-Library.Multiset"
begin

section \<open>Strings and the regular expressions of the parsers\<close>

text \<open>
  A JavaScript string is modelled as a \<^typ>\<open>string\<close>: a list of code units, each below 256
  (the Latin-1 range of UTF-16). Code units above that range are outside the model.
  Every regular expression of the source is translated by hand into a function that
  returns the captures of the first match (\<open>None\<close> when \<open>exec\<close> returns \<open>null\<close>);
  the comment of each function gives the expression it stands for.
\<close>

definition isLineTerminator :: "char \<Rightarrow> bool" where
  \<comment> \<open>the characters the regular expression \<open>.\<close> does not match\<close>
  "isLineTerminator c = (c = CHR 0x0A \<or> c = CHR 0x0D)"

definition isDot :: "char \<Rightarrow> bool" where
  "isDot c = (\<not> isLineTerminator c)"

definition isDigit :: "char \<Rightarrow> bool" where
  \<comment> \<open>\<open>[0-9]\<close>\<close>
  "isDigit c = (CHR ''0'' \<le> c \<and> c \<le> CHR ''9'')"

definition isUpper :: "char \<Rightarrow> bool" where
  \<comment> \<open>\<open>[A-Z]\<close>\<close>
  "isUpper c = (CHR ''A'' \<le> c \<and> c \<le> CHR ''Z'')"

definition isHeadingChar :: "char \<Rightarrow> bool" where
  \<comment> \<open>\<open>[A-Za-z ]\<close>\<close>
  "isHeadingChar c = (isUpper c \<or> (CHR ''a'' \<le> c \<and> c \<le> CHR ''z'') \<or> c = CHR '' '')"

definition isSep :: "char \<Rightarrow> bool" where
  \<comment> \<open>\<open>[/\\]\<close>\<close>
  "isSep c = (c = CHR ''/'' \<or> c = CHR 0x5C)"

definition isWhiteSpace :: "char \<Rightarrow> bool" where
  \<comment> \<open>white space and line terminators, as \<open>trim\<close> and \<open>parseFloat\<close> skip them\<close>
  "isWhiteSpace c = (c \<in> set [CHR 0x09, CHR 0x0A, CHR 0x0B, CHR 0x0C, CHR 0x0D, CHR '' '', CHR 0xA0])"

definition startsWith :: "string \<Rightarrow> string \<Rightarrow> bool" where
  "startsWith s p = (take (length p) s = p)"

definition endsWith :: "string \<Rightarrow> string \<Rightarrow> bool" where
  "endsWith s p = (length p \<le> length s \<and> drop (length s - length p) s = p)"

definition occursAt :: "string \<Rightarrow> string \<Rightarrow> nat \<Rightarrow> bool" where
  \<comment> \<open>the literal \<open>p\<close> stands in \<open>s\<close> at position \<open>i\<close>\<close>
  "occursAt p s i = (i + length p \<le> length s \<and> take (length p) (drop i s) = p)"

definition lastOcc :: "(nat \<Rightarrow> bool) \<Rightarrow> nat \<Rightarrow> nat \<Rightarrow> nat option" where
  \<comment> \<open>the largest \<open>i\<close> with \<open>lo \<le> i < hi\<close> and \<open>P i\<close>: where a greedy \<open>(.+)\<close> ends\<close>
  "lastOcc P lo hi = (case filter P (rev [lo ..< hi]) of [] \<Rightarrow> None | i # _ \<Rightarrow> Some i)"

fun firstSome :: "('a \<Rightarrow> 'b option) \<Rightarrow> 'a list \<Rightarrow> 'b option" where
  "firstSome f [] = None"
| "firstSome f (x # xs) = (case f x of Some y \<Rightarrow> Some y | None \<Rightarrow> firstSome f xs)"

fun segments :: "string \<Rightarrow> string list" where
  \<comment> \<open>the maximal stretches without a line terminator: no \<open>.\<close> crosses from one to the next\<close>
  "segments [] = [[]]"
| "segments (c # cs) =
     (if isLineTerminator c then [] # segments cs
      else (case segments cs of [] \<Rightarrow> [[c]] | g # gs \<Rightarrow> (c # g) # gs))"

definition digitsToNat :: "string \<Rightarrow> nat" where
  \<comment> \<open>the value of a run of decimal digits (\<open>parseFloat\<close> on \<open>[0-9]+\<close>, exact below \<open>2^53\<close>)\<close>
  "digitsToNat ds = foldl (\<lambda>n c. 10 * n + (of_char c - 48)) 0 ds"

subsection \<open>\<open>parseFloat\<close>\<close>

text \<open>
  \<open>parseFloat\<close> skips leading white space and reads the longest prefix that is a decimal
  literal: an optional sign, then \<open>Infinity\<close>, or digits with an optional fraction and
  exponent, or a fraction that starts with the point. The floating-point value is not
  modelled: \<open>parseFloatLexeme\<close> returns the literal that was read, \<open>None\<close> for \<open>NaN\<close>.
\<close>

definition exponentPart :: "string \<Rightarrow> string" where
  \<comment> \<open>\<open>[eE][+-]?[0-9]+\<close> at the start of the string, or nothing\<close>
  "exponentPart s =
     (case s of
        [] \<Rightarrow> []
      | e # r \<Rightarrow>
          if e = CHR ''e'' \<or> e = CHR ''E'' then
            (let sg = (case r of [] \<Rightarrow> [] | c # _ \<Rightarrow> if c = CHR ''+'' \<or> c = CHR ''-'' then [c] else []);
                 ds = takeWhile isDigit (drop (length sg) r)
             in if ds = [] then [] else e # sg @ ds)
          else [])"

definition unsignedDecimal :: "string \<Rightarrow> string option" where
  "unsignedDecimal s =
     (if startsWith s ''Infinity'' then Some ''Infinity''
      else
        (let ds = takeWhile isDigit s; r = drop (length ds) s in
         if ds \<noteq> [] then
           (if startsWith r ''.'' then
              (let fs = takeWhile isDigit (tl r); r' = drop (length fs) (tl r)
               in Some (ds @ ''.'' @ fs @ exponentPart r'))
            else Some (ds @ exponentPart r))
         else if startsWith r ''.'' then
           (let fs = takeWhile isDigit (tl r); r' = drop (length fs) (tl r)
            in if fs = [] then None else Some (''.'' @ fs @ exponentPart r'))
         else None))"

definition parseFloatLexeme :: "string \<Rightarrow> string option" where
  "parseFloatLexeme str =
     (let s = dropWhile isWhiteSpace str;
          sg = (case s of [] \<Rightarrow> [] | c # _ \<Rightarrow> if c = CHR ''+'' \<or> c = CHR ''-'' then [c] else [])
      in map_option (\<lambda>l. sg @ l) (unsignedDecimal (drop (length sg) s)))"

definition tonumber :: "string \<Rightarrow> string option" where
  \<comment> \<open>\<open>tonumber\<close> of both parsers: \<open>null\<close> when \<open>parseFloat\<close> gives \<open>NaN\<close>\<close>
  "tonumber str = parseFloatLexeme str"

section \<open>The data model (crashInfo.ts)\<close>

datatype LineInfo = LineInfo (content: string) (children: "LineInfo list")

text \<open>
  The values a decoded local can hold at run time. A number is kept as the literal that
  \<open>parseFloat\<close> read (\<open>Infinity\<close> is written \<open>''Infinity''\<close>); an object is the list of its
  properties in the order a \<open>for-in\<close> loop visits them.
\<close>

datatype JSValue =
    JSUndefined
  | JSNull
  | JSBoolean bool
  | JSNumber string
  | JSString string
  | JSObject "(string \<times> JSValue) list"

record LocalVar =
  val :: JSValue
  type :: string

record FrameInfo =
  name :: string
  source :: string
  currentline :: nat
  func :: string
  locals :: "(string \<times> LocalVar) list"

record CrashInfo =
  errMsg :: string
  frames :: "FrameInfo list"
  logLines :: "string list"

text \<open>Every \<open>throw\<close> of the two parsers, one constructor per place.\<close>

datatype error =
    UnknownLocal string
  | InvalidLine string
  | OddIndentation nat
  | WalkOffRoot
  | IndentJump string
  | NoParent
  | InvalidHeadingLine string
  | InvalidFrameLine string
  | InvalidSection string
  | NoErrorMessage
  | NoFrames
  | InvalidHeadingType string
  | OrphanLine string
  | EmptyStack
  | FirstFrameUnparsed string
  | UnknownFrame string
  | InvalidHeading string

fun setProp :: "(string \<times> 'v) list \<Rightarrow> string \<Rightarrow> 'v \<Rightarrow> (string \<times> 'v) list" where
  \<comment> \<open>\<open>obj[key] = v\<close>: an existing property keeps its place, a new one comes last\<close>
  "setProp [] k v = [(k, v)]"
| "setProp ((k', v') # ps) k v = (if k' = k then (k, v) # ps else (k', v') # setProp ps k v)"

definition hasProp :: "(string \<times> 'v) list \<Rightarrow> string \<Rightarrow> bool" where
  \<comment> \<open>\<open>key in obj\<close>\<close>
  "hasProp ps k = (k \<in> fst ` set ps)"

fun foldE :: "('s \<Rightarrow> 'a \<Rightarrow> 'e + 's) \<Rightarrow> 'a list \<Rightarrow> 's \<Rightarrow> 'e + 's" where
  \<comment> \<open>a \<open>for\<close> loop whose body may throw\<close>
  "foldE f [] s = Inr s"
| "foldE f (x # xs) s = (case f s x of Inl e \<Rightarrow> Inl e | Inr s' \<Rightarrow> foldE f xs s')"

section \<open>The TSM parser (tsmCrashFile.ts)\<close>

definition IGNORED_HEADING_SECTIONS :: "string list" where
  "IGNORED_HEADING_SECTIONS =
     [''Time'', ''Client'', ''Locale'', ''Combat'', ''Error Count'', ''Temp Tables'',
      ''Object Pools'', ''Running Threads'', ''Addons'']"

definition inTable :: "string \<Rightarrow> string list \<Rightarrow> bool" where
  "inTable search tbl = (search \<in> set tbl)"

subsection \<open>\<open>parseLocalVar\<close>\<close>

definition nameValueSeg :: "string \<Rightarrow> (string \<times> string) option" where
  "nameValueSeg g =
     (case lastOcc (occursAt '' = '' g) 1 (length g - 3) of
        None \<Rightarrow> None
      | Some p \<Rightarrow> Some (take p g, drop (p + 3) g))"

definition nameValueMatch :: "string \<Rightarrow> (string \<times> string) option" where
  \<comment> \<open>\<open>/(.+) = (.+)/\<close>: the first group is greedy, so the split is at the last \<open>" = "\<close>
      that leaves a character on each side\<close>
  "nameValueMatch s = firstSome nameValueSeg (segments s)"

definition strValueSeg :: "string \<Rightarrow> string option" where
  "strValueSeg g =
     (let i = length (takeWhile (\<lambda>c. c \<noteq> CHR 0x22) g) in
      case lastOcc (\<lambda>j. g ! j = CHR 0x22) (i + 1) (length g) of
        None \<Rightarrow> None
      | Some j \<Rightarrow> Some (take (j - i - 1) (drop (i + 1) g)))"

definition strValueMatch :: "string \<Rightarrow> string option" where
  \<comment> \<open>\<open>/"(.*)"/\<close>: from the first double quote to the last one\<close>
  "strValueMatch s = firstSome strValueSeg (segments s)"

definition tblNameAt :: "string \<Rightarrow> nat \<Rightarrow> string option" where
  "tblNameAt g i =
     (let r = drop (i + 2) g;
          group = (\<lambda>r'. map_option (\<lambda>p. take p r') (lastOcc (occursAt '' {'' r') 1 (length r')))
      in case (if startsWith r ''<'' then group (tl r) else None) of
           Some n \<Rightarrow> Some n
         | None \<Rightarrow> group r)"

definition tblNameMatch :: "string \<Rightarrow> string option" where
  \<comment> \<open>\<open>/= <?(.+)>? {/\<close>: the greedy group runs to the last \<open>" {"\<close> and takes a \<open>>\<close>
      before it with it\<close>
  "tblNameMatch s =
     firstSome (\<lambda>g. firstSome (tblNameAt g) (filter (occursAt ''= '' g) [0 ..< length g]))
       (segments s)"

definition memberKey :: "(string \<Rightarrow> string) \<Rightarrow> string \<Rightarrow> string" where
  \<comment> \<open>\<open>this.tonumber(info.name) ?? info.name\<close> as a property key; \<open>numToString\<close> is the
      run time's conversion of the parsed number to a string\<close>
  "memberKey numToString n = (case tonumber n of Some l \<Rightarrow> numToString l | None \<Rightarrow> n)"

fun parseLocalVar :: "(string \<Rightarrow> string) \<Rightarrow> LineInfo \<Rightarrow> error + (string \<times> JSValue \<times> string) option"
  and parseMembers :: "(string \<Rightarrow> string) \<Rightarrow> LineInfo list \<Rightarrow> (string \<times> JSValue) list
         \<Rightarrow> error + (string \<times> JSValue) list" where
  "parseLocalVar K (LineInfo c cs) =
     (case nameValueMatch c of
        None \<Rightarrow> Inr None
      | Some (nm, value) \<Rightarrow>
          (case strValueMatch value of
             Some s \<Rightarrow> Inr (Some (nm, JSString s, ''string''))
           | None \<Rightarrow>
               if take 10 value = ''<function>'' then Inr (Some (nm, JSString value, ''function''))
               else if take 1 value = ''{'' then
                 (case parseMembers K cs [] of
                    Inl e \<Rightarrow> Inl e
                  | Inr tblValue \<Rightarrow> Inr (Some (nm, JSObject tblValue, ''table'')))
               else if tonumber value \<noteq> None then
                 Inr (Some (nm, JSNumber (the (tonumber value)), ''number''))
               else if value = ''nil'' then Inr (Some (nm, JSNull, ''nil''))
               else if drop (length value - 2) value = ''{}'' \<or> drop (length value - 1) value = ''{'' then
                 (let ty = (case tblNameMatch c of
                                Some n \<Rightarrow> ''table<'' @ n @ ''>''
                              | None \<Rightarrow> ''table'')
                  in case parseMembers K cs [] of
                       Inl e \<Rightarrow> Inl e
                     | Inr tblValue \<Rightarrow> Inr (Some (nm, JSObject tblValue, ty)))
               else if value = ''<userdata>'' then Inr (Some (nm, JSString value, ''userdata''))
               else if value = ''true'' \<or> value = ''false'' then
                 Inr (Some (nm, JSBoolean (value = ''true''), ''boolean''))
               else if value = ''Infinite'' then Inr (Some (nm, JSNumber ''Infinity'', ''number''))
               else Inl (UnknownLocal c)))"
| "parseMembers K [] tblValue = Inr tblValue"
| "parseMembers K (childNode # rest) tblValue =
     (case parseLocalVar K childNode of
        Inl e \<Rightarrow> Inl e
      | Inr None \<Rightarrow> parseMembers K rest tblValue
      | Inr (Some (n, v, t)) \<Rightarrow> parseMembers K rest (setProp tblValue (memberKey K n) v))"

subsection \<open>\<open>createTree\<close>\<close>

text \<open>
  The source builds the tree in place: every node holds a reference to its parent and
  the array of its children, and \<open>push\<close> changes a node that other nodes refer to. The
  model keeps the nodes in a store, a list in which a node's index is its address (the
  root is at \<open>0\<close>, a new node is put at the end), and reads the finished tree off the
  store once the loop is over.
\<close>

record Node =
  ncontent :: string
  nchildren :: "nat list"
  nparent :: "nat option"

record TreeState =
  store :: "Node list"
  currentNode :: nat
  currentLevel :: nat

definition lineMatch :: "string \<Rightarrow> (string \<times> string) option" where
  \<comment> \<open>\<open>/^( *)(.+)/\<close>: all leading spaces, then everything up to a line terminator; when
      nothing the second group can match follows the spaces, the first group gives back
      its last space and the second group is that space\<close>
  "lineMatch line =
     (let spaces = takeWhile (\<lambda>c. c = CHR '' '') line;
          rest = takeWhile isDot (drop (length spaces) line)
      in if rest \<noteq> [] then Some (spaces, rest)
         else if spaces \<noteq> [] then Some (tl spaces, '' '')
         else None)"

function walkUp :: "Node list \<Rightarrow> nat \<Rightarrow> nat \<Rightarrow> nat \<Rightarrow> error + (nat \<times> nat)" where
  \<comment> \<open>\<open>while (level < currentLevel) { ... }\<close>; returns the new \<open>currentNode\<close> and
      \<open>currentLevel\<close>\<close>
  "walkUp st level cur curLevel =
     (if level < curLevel then
        (case nparent (st ! cur) of
           None \<Rightarrow> Inl WalkOffRoot
         | Some p \<Rightarrow> walkUp st level p (curLevel - 1))
      else Inr (cur, curLevel))"
  by pat_completeness auto
termination
  by (relation "measure (\<lambda>(st, level, cur, curLevel). curLevel)") auto

declare walkUp.simps [simp del]

definition pushChild :: "Node list \<Rightarrow> nat \<Rightarrow> Node \<Rightarrow> Node list" where
  \<comment> \<open>allocates \<open>node\<close> and runs \<open>node.parent.children.push(node)\<close>\<close>
  "pushChild st p node =
     (st[p := (st ! p)\<lparr>nchildren := nchildren (st ! p) @ [length st]\<rparr>]) @ [node]"

definition chooseParent :: "TreeState \<Rightarrow> nat \<Rightarrow> string \<Rightarrow> error + nat option \<times> TreeState" where
  \<comment> \<open>the choice of \<open>node.parent\<close>: the parent (\<open>None\<close> when it is undefined) and the state
      after the walk back up the tree\<close>
  "chooseParent s level line =
     (if level = 0 then Inr (Some 0, s)
      else if level = currentLevel s then Inr (nparent (store s ! currentNode s), s)
      else if level = currentLevel s + 1 then Inr (Some (currentNode s), s)
      else if level < currentLevel s then
        (case walkUp (store s) level (currentNode s) (currentLevel s) of
           Inl e \<Rightarrow> Inl e
         | Inr (cur, lvl) \<Rightarrow>
             Inr (nparent (store s ! cur), s\<lparr>currentNode := cur, currentLevel := lvl\<rparr>))
      else Inl (IndentJump line))"

definition createTreeStep :: "TreeState \<Rightarrow> string \<Rightarrow> error + TreeState" where
  \<comment> \<open>the body of the loop over the lines\<close>
  "createTreeStep s line =
     (case lineMatch line of
        None \<Rightarrow> Inl (InvalidLine line)
      | Some (spaces, cont) \<Rightarrow>
          if length spaces mod 2 \<noteq> 0 then Inl (OddIndentation (length spaces))
          else
            (case chooseParent s (length spaces div 2) line of
               Inl e \<Rightarrow> Inl e
             | Inr (None, s') \<Rightarrow> Inl NoParent
             | Inr (Some p, s') \<Rightarrow>
                 Inr \<lparr>store = pushChild (store s') p
                                \<lparr>ncontent = cont, nchildren = [], nparent = Some p\<rparr>,
                      currentNode = length (store s'),
                      currentLevel = length spaces div 2\<rparr>))"

function reify :: "Node list \<Rightarrow> nat \<Rightarrow> LineInfo" where
  \<comment> \<open>the tree below the node at address \<open>i\<close>. A child is allocated after its parent, so
      the test on the child's address lets every child of a store of \<open>createTree\<close> pass.\<close>
  "reify st i =
     LineInfo (ncontent (st ! i))
       (map (reify st) (filter (\<lambda>c. i < c \<and> c < length st) (nchildren (st ! i))))"
  by pat_completeness auto
termination
  by (relation "measure (\<lambda>(st, i). length st - i)") auto

declare reify.simps [simp del]

definition rootState :: TreeState where
  "rootState =
     \<lparr>store = [\<lparr>ncontent = [], nchildren = [], nparent = None\<rparr>],
      currentNode = 0, currentLevel = 0\<rparr>"

definition TSM_createTree :: "string list \<Rightarrow> error + LineInfo" where
  "TSM_createTree lines =
     (case foldE createTreeStep lines rootState of
        Inl e \<Rightarrow> Inl e
      | Inr s \<Rightarrow> Inr (reify (store s) 0))"

subsection \<open>\<open>getCrashInfo\<close>\<close>

definition headingMatch :: "string \<Rightarrow> (string \<times> string) option" where
  \<comment> \<open>\<open>/^([A-Za-z ]+): ?(.*)$/\<close>\<close>
  "headingMatch s =
     (let headingType = takeWhile isHeadingChar s; r = drop (length headingType) s in
      if headingType \<noteq> [] \<and> startsWith r '':'' then
        (let headingContent = (if startsWith (tl r) '' '' then tl (tl r) else tl r)
         in if list_all isDot headingContent then Some (headingType, headingContent) else None)
      else None)"

definition stripTSM :: "string \<Rightarrow> string" where
  \<comment> \<open>\<open>replace(/^TSM[/\\]/g, "")\<close>\<close>
  "stripTSM s = (if startsWith s ''TSM'' \<and> 3 < length s \<and> isSep (s ! 3) then drop 4 s else s)"

definition frameMatch :: "string \<Rightarrow> (string \<times> string) option" where
  \<comment> \<open>\<open>/^(.+) <(.+)>$/\<close>: the split is at the last \<open>" <"\<close> that leaves a character
      between it and the closing \<open>>\<close>\<close>
  "frameMatch s =
     (if list_all isDot s \<and> endsWith s ''>'' then
        (case lastOcc (occursAt '' <'' s) 1 (length s - 3) of
           None \<Rightarrow> None
         | Some p \<Rightarrow> Some (take p s, take (length s - p - 3) (drop (p + 2) s)))
      else None)"

definition locationMatch :: "string \<Rightarrow> (string \<times> string) option" where
  \<comment> \<open>\<open>/^TSM[/\\](.+):([0-9]+)/\<close>: the group runs to the last colon that a digit follows\<close>
  "locationMatch s =
     (if startsWith s ''TSM'' \<and> 3 < length s \<and> isSep (s ! 3) then
        (let g = takeWhile isDot (drop 4 s) in
         case lastOcc (\<lambda>q. g ! q = CHR '':'' \<and> q + 1 < length g \<and> isDigit (g ! (q + 1))) 1 (length g) of
           None \<Rightarrow> None
         | Some q \<Rightarrow> Some (take q g, takeWhile isDigit (drop (q + 1) g)))
      else None)"

definition parseLocals :: "(string \<Rightarrow> string) \<Rightarrow> (string \<times> LocalVar) list \<Rightarrow> LineInfo
    \<Rightarrow> error + (string \<times> LocalVar) list" where
  "parseLocals K ls localNode =
     (case parseLocalVar K localNode of
        Inl e \<Rightarrow> Inl e
      | Inr None \<Rightarrow> Inr ls
      | Inr (Some (n, v, t)) \<Rightarrow> Inr (setProp ls n \<lparr>val = v, type = t\<rparr>))"

definition tsmFrame :: "(string \<Rightarrow> string) \<Rightarrow> FrameInfo list \<Rightarrow> LineInfo \<Rightarrow> error + FrameInfo list" where
  \<comment> \<open>the body of the loop over the children of \<open>Stack Trace\<close>\<close>
  "tsmFrame K fs frameNode =
     (case frameMatch (content frameNode) of
        None \<Rightarrow> Inl (InvalidFrameLine (content frameNode))
      | Some (location, nm) \<Rightarrow>
          (case foldE (parseLocals K) (children frameNode) [] of
             Inl e \<Rightarrow> Inl e
           | Inr ls \<Rightarrow>
               Inr (fs @
                 [\<lparr>name = nm,
                   source = (case locationMatch location of Some (file, l) \<Rightarrow> file | None \<Rightarrow> []),
                   currentline = (case locationMatch location of Some (file, l) \<Rightarrow> digitsToNat l | None \<Rightarrow> 0),
                   func = location,
                   locals = ls\<rparr>])))"

definition tsmHeading :: "(string \<Rightarrow> string) \<Rightarrow> CrashInfo \<Rightarrow> LineInfo \<Rightarrow> error + CrashInfo" where
  \<comment> \<open>the body of the loop over \<open>tree.children\<close>\<close>
  "tsmHeading K crashInfo headingNode =
     (case headingMatch (content headingNode) of
        None \<Rightarrow> Inl (InvalidHeadingLine (content headingNode))
      | Some (headingType, headingContent) \<Rightarrow>
          if headingType = ''Message'' then Inr (crashInfo\<lparr>errMsg := stripTSM headingContent\<rparr>)
          else if headingType = ''Stack Trace'' then
            (case foldE (tsmFrame K) (children headingNode) (frames crashInfo) of
               Inl e \<Rightarrow> Inl e
             | Inr fs \<Rightarrow> Inr (crashInfo\<lparr>frames := fs\<rparr>))
          else if headingType = ''Debug Log'' then
            Inr (crashInfo\<lparr>logLines := map content (rev (children headingNode))\<rparr>)
          else if inTable headingType IGNORED_HEADING_SECTIONS then Inr crashInfo
          else Inl (InvalidSection (content headingNode)))"

definition TSM_getCrashInfo :: "(string \<Rightarrow> string) \<Rightarrow> LineInfo \<Rightarrow> error + CrashInfo" where
  "TSM_getCrashInfo K tree =
     (case foldE (tsmHeading K) (children tree) \<lparr>errMsg = [], frames = [], logLines = []\<rparr> of
        Inl e \<Rightarrow> Inl e
      | Inr crashInfo \<Rightarrow>
          if errMsg crashInfo = [] then Inl NoErrorMessage
          else if frames crashInfo = [] then Inl NoFrames
          else Inr crashInfo)"

section \<open>The Blizzard parser (blizzardCrashFile.ts)\<close>

subsection \<open>\<open>createTree\<close>\<close>

definition blizzardLineMatch :: "string \<Rightarrow> (string \<times> string) option" where
  \<comment> \<open>\<open>/^([A-Z][A-Za-z ]+): (.+)$/\<close>\<close>
  "blizzardLineMatch line =
     (let headingType = takeWhile isHeadingChar line;
          r = drop (length headingType) line;
          headingContent = drop 2 r
      in if 2 \<le> length headingType \<and> isUpper (hd headingType) \<and> startsWith r '': ''
            \<and> headingContent \<noteq> [] \<and> list_all isDot headingContent
         then Some (headingType, headingContent) else None)"

definition Blizzard_createTreeStep :: "LineInfo list \<Rightarrow> string \<Rightarrow> error + LineInfo list" where
  \<comment> \<open>the body of the loop; the state is \<open>rootNode.children\<close>\<close>
  "Blizzard_createTreeStep hs line =
     (case blizzardLineMatch line of
        Some (headingType, headingContent) \<Rightarrow>
          if headingType = ''Message'' then Inr (hs @ [LineInfo line []])
          else if headingType = ''Time'' \<or> headingType = ''Count'' then Inr hs
          else if headingType = ''Stack'' then
            Inr (hs @ [LineInfo ''Stack:'' [LineInfo headingContent []]])
          else if headingType = ''Locals'' then
            Inr (hs @ [LineInfo ''Locals:'' [LineInfo headingContent []]])
          else Inl (InvalidHeadingType headingType)
      | None \<Rightarrow>
          if hs = [] then Inl (OrphanLine line)
          else Inr (butlast hs @
                 [LineInfo (content (last hs)) (children (last hs) @ [LineInfo line []])]))"

definition Blizzard_createTree :: "string list \<Rightarrow> error + LineInfo" where
  "Blizzard_createTree lines =
     (case foldE Blizzard_createTreeStep (filter (\<lambda>line. \<not> list_all isWhiteSpace line) lines) [] of
        Inl e \<Rightarrow> Inl e
      | Inr hs \<Rightarrow> Inr (LineInfo [] hs))"

subsection \<open>\<open>getCrashInfo\<close>\<close>

definition partialPathMatch :: "string \<Rightarrow> string option" where
  \<comment> \<open>\<open>/^\.\.\.([^:]+)/\<close>\<close>
  "partialPathMatch s =
     (let g = takeWhile (\<lambda>c. c \<noteq> CHR '':'') (drop 3 s)
      in if startsWith s ''...'' \<and> g \<noteq> [] then Some g else None)"

definition stringFrameTail :: "string \<Rightarrow> (string \<times> string) option" where
  \<comment> \<open>\<open>([0-9]*): (.+)\<close>\<close>
  "stringFrameTail t =
     (let ds = takeWhile isDigit t;
          r = drop (length ds) t;
          nm = takeWhile isDot (drop 2 r)
      in if startsWith r '': '' \<and> nm \<noteq> [] then Some (ds, nm) else None)"

definition stringFramePath :: "string \<Rightarrow> (string \<times> string \<times> string) option" where
  \<comment> \<open>\<open>([^"]+)"\]:?([0-9]*): (.+)\<close>\<close>
  "stringFramePath r =
     (let g = takeWhile (\<lambda>c. c \<noteq> CHR 0x22) r;
          r1 = drop (length g) r;
          r2 = drop 2 r1
      in if g \<noteq> [] \<and> startsWith r1 [CHR 0x22, CHR '']''] then
           (case (if startsWith r2 '':'' then stringFrameTail (tl r2) else None) of
              Some (ds, nm) \<Rightarrow> Some (g, ds, nm)
            | None \<Rightarrow> map_option (\<lambda>(ds, nm). (g, ds, nm)) (stringFrameTail r2))
         else None)"

definition stringFrameMatch :: "string \<Rightarrow> (string \<times> string \<times> string) option" where
  \<comment> \<open>\<open>/^\[string "@?([^"]+)"\]:?([0-9]*): (.+)/\<close>: the path, the line and the name. An
      optional part is tried first with its character taken, then without it.\<close>
  "stringFrameMatch s =
     (let r = drop 9 s in
      if startsWith s (''[string '' @ [CHR 0x22]) then
        (case (if startsWith r ''@'' then stringFramePath (tl r) else None) of
           Some m \<Rightarrow> Some m
         | None \<Rightarrow> stringFramePath r)
      else None)"

definition firstStackFrameMatch :: "string \<Rightarrow> (string \<times> string \<times> string) option" where
  \<comment> \<open>\<open>/^(Interface[/\\]Add[Oo]ns[/\\][^/\\]+)[/\\]([^.]+\.lua):([0-9]+):/\<close>\<close>
  "firstStackFrameMatch s =
     (let addon = takeWhile (\<lambda>c. \<not> isSep c) (drop 17 s);
          r = drop (17 + length addon) s;
          base = takeWhile (\<lambda>c. c \<noteq> CHR ''.'') (tl r);
          r2 = drop (length base) (tl r);
          ds = takeWhile isDigit (drop 5 r2)
      in if startsWith s ''Interface'' \<and> 9 < length s \<and> isSep (s ! 9)
            \<and> startsWith (drop 10 s) ''Add''
            \<and> (startsWith (drop 13 s) ''O'' \<or> startsWith (drop 13 s) ''o'')
            \<and> startsWith (drop 14 s) ''ns'' \<and> 16 < length s \<and> isSep (s ! 16)
            \<and> addon \<noteq> [] \<and> r \<noteq> [] \<and> isSep (hd r)
            \<and> base \<noteq> [] \<and> startsWith r2 ''.lua:'' \<and> ds \<noteq> []
            \<and> startsWith (drop (5 + length ds) r2) '':''
         then Some (take (17 + length addon) s, base @ ''.lua'', ds)
         else None)"

definition functionNameAt :: "string \<Rightarrow> nat \<Rightarrow> string option" where
  "functionNameAt g i =
     (let r = drop (i + 13) g in
      if i + 12 < length g \<and> (g ! (i + 12) = CHR 0x60 \<or> g ! (i + 12) = CHR ''<'') then
        map_option (\<lambda>j. take j r)
          (lastOcc (\<lambda>j. r ! j = CHR 0x27 \<or> r ! j = CHR ''>'') 1 (length r))
      else None)"

definition functionNameMatch :: "string \<Rightarrow> string option" where
  \<comment> \<open>\<open>/in function [`<](.+)['>]/\<close>\<close>
  "functionNameMatch s =
     firstSome
       (\<lambda>g. firstSome (functionNameAt g) (filter (occursAt ''in function '' g) [0 ..< length g]))
       (segments s)"

fun getSubstitution :: "string \<Rightarrow> string \<Rightarrow> string \<Rightarrow> string \<Rightarrow> string" where
  \<comment> \<open>the replacement text of \<open>String.prototype.replace\<close> with a string pattern: \<open>$$\<close>,
      \<open>$&\<close>, the text before and the text after the match\<close>
  "getSubstitution m b a (c # d # r) =
     (if c = CHR ''$'' \<and> d = CHR ''$'' then CHR ''$'' # getSubstitution m b a r
      else if c = CHR ''$'' \<and> d = CHR ''&'' then m @ getSubstitution m b a r
      else if c = CHR ''$'' \<and> d = CHR 0x60 then b @ getSubstitution m b a r
      else if c = CHR ''$'' \<and> d = CHR 0x27 then a @ getSubstitution m b a r
      else c # getSubstitution m b a (d # r))"
| "getSubstitution m b a r = r"

definition resolveFirstFrame :: "string \<Rightarrow> LineInfo list \<Rightarrow> string" where
  \<comment> \<open>the search for the full path of a first frame that starts with \<open>...\<close>\<close>
  "resolveFirstFrame firstStackFrame frameNodes =
     (case partialPathMatch firstStackFrame of
        None \<Rightarrow> firstStackFrame
      | Some partialPath \<Rightarrow>
          (case find (\<lambda>fullPath. endsWith fullPath partialPath)
                  (List.map_filter (\<lambda>n. map_option fst (stringFrameMatch (content n))) frameNodes) of
             None \<Rightarrow> firstStackFrame
           | Some fullPath \<Rightarrow>
               (let rest = drop (3 + length partialPath) firstStackFrame
                in getSubstitution (''...'' @ partialPath) [] rest fullPath @ rest)))"

fun blizzardFrames :: "string \<Rightarrow> FrameInfo list \<Rightarrow> LineInfo list \<Rightarrow> error + FrameInfo list" where
  \<comment> \<open>the loop over \<open>headingNode.children.slice(1)\<close>, left at a line \<open>...\<close>\<close>
  "blizzardFrames addonPath fs [] = Inr fs"
| "blizzardFrames addonPath fs (frameNode # rest) =
     (if content frameNode = ''...'' then Inr fs
      else
        (case stringFrameMatch (content frameNode) of
           None \<Rightarrow> Inl (UnknownFrame (content frameNode))
         | Some (rawLocation, l, rawName) \<Rightarrow>
             (let location = (if startsWith rawLocation addonPath
                              then drop (length addonPath + 1) rawLocation else rawLocation)
              in blizzardFrames addonPath
                   (fs @ [\<lparr>name = (case functionNameMatch rawName of Some n \<Rightarrow> n | None \<Rightarrow> rawName),
                           source = location,
                           currentline = digitsToNat l,
                           func = location,
                           locals = []\<rparr>])
                   rest)))"

definition blizzardStack :: "CrashInfo \<Rightarrow> LineInfo \<Rightarrow> error + CrashInfo" where
  \<comment> \<open>the \<open>Stack\<close> branch\<close>
  "blizzardStack crashInfo headingNode =
     (case children headingNode of
        [] \<Rightarrow> Inl EmptyStack
      | firstNode # others \<Rightarrow>
          (let firstStackFrame = resolveFirstFrame (content firstNode) (children headingNode) in
           case firstStackFrameMatch firstStackFrame of
             None \<Rightarrow> Inl (FirstFrameUnparsed firstStackFrame)
           | Some (addonPath, firstStackFilePath, firstStackLine) \<Rightarrow>
               (case blizzardFrames addonPath
                       (frames crashInfo @
                          [\<lparr>name = ''?'', source = firstStackFilePath,
                            currentline = digitsToNat firstStackLine, func = ''?'', locals = []\<rparr>])
                       others of
                  Inl e \<Rightarrow> Inl e
                | Inr fs \<Rightarrow> Inr (crashInfo\<lparr>frames := fs\<rparr>))))"

definition blizzardHeading :: "CrashInfo \<Rightarrow> LineInfo \<Rightarrow> error + CrashInfo" where
  \<comment> \<open>the body of the loop over \<open>tree.children\<close>\<close>
  "blizzardHeading crashInfo headingNode =
     (case headingMatch (content headingNode) of
        None \<Rightarrow> Inl (InvalidHeadingLine (content headingNode))
      | Some (headingType, headingContent) \<Rightarrow>
          if headingType = ''Message'' then Inr (crashInfo\<lparr>errMsg := stripTSM headingContent\<rparr>)
          else if headingType = ''Stack'' then blizzardStack crashInfo headingNode
          else if headingType = ''Locals'' then Inr crashInfo
          else Inl (InvalidHeading headingType))"

definition Blizzard_getCrashInfo :: "LineInfo \<Rightarrow> error + CrashInfo" where
  "Blizzard_getCrashInfo tree =
     foldE blizzardHeading (children tree) \<lparr>errMsg = [], frames = [], logLines = []\<rparr>"

section \<open>The debug session (luaDebugSession.ts)\<close>

subsection \<open>Numbers and strings of the run time\<close>

definition trim :: "string \<Rightarrow> string" where
  "trim s = rev (dropWhile isWhiteSpace (rev (dropWhile isWhiteSpace s)))"

definition nonDecimalLiteral :: "string \<Rightarrow> bool" where
  \<comment> \<open>\<open>0x\<close>, \<open>0o\<close> and \<open>0b\<close> literals\<close>
  "nonDecimalLiteral t =
     (2 < length t \<and> hd t = CHR ''0'' \<and>
      (let ds = drop 2 t in
       (t ! 1 \<in> set ''xX'' \<and> list_all (\<lambda>c. c \<in> set ''0123456789abcdefABCDEF'') ds) \<or>
       (t ! 1 \<in> set ''oO'' \<and> list_all (\<lambda>c. c \<in> set ''01234567'') ds) \<or>
       (t ! 1 \<in> set ''bB'' \<and> list_all (\<lambda>c. c \<in> set ''01'') ds)))"

definition Number_isNaN :: "string \<Rightarrow> bool" where
  \<comment> \<open>\<open>isNaN(Number(s))\<close>: \<open>s\<close> is not a numeric literal between optional white space
      (the empty string converts to \<open>0\<close>)\<close>
  "Number_isNaN s =
     (let t = trim s;
          u = (case t of [] \<Rightarrow> [] | c # r \<Rightarrow> if c = CHR ''+'' \<or> c = CHR ''-'' then r else t)
      in \<not> (t = [] \<or> unsignedDecimal u = Some u \<or> nonDecimalLiteral t))"

text \<open>
  What the run time computes with floating-point numbers is a parameter of the model:
  \<open>toNumber s\<close> is the value of \<open>Number(s)\<close> for an \<open>s\<close> that is not \<open>NaN\<close>, in a linear
  order; \<open>numberToString l\<close> is the text of the number that \<open>parseFloat\<close> reads from the
  literal \<open>l\<close>; \<open>isInteger s\<close> is \<open>Number.isInteger(Number(s))\<close>.
\<close>

record 'n JSNumbers =
  toNumber :: "string \<Rightarrow> 'n"
  numberToString :: "string \<Rightarrow> string"
  isInteger :: "string \<Rightarrow> bool"

definition toLowerCase :: "string \<Rightarrow> string" where
  \<comment> \<open>on code units below 256: \<open>A\<close> to \<open>Z\<close> and the capital letters of Latin-1\<close>
  "toLowerCase s =
     map (\<lambda>c. if isUpper c \<or> (CHR 0xC0 \<le> c \<and> c \<le> CHR 0xDE \<and> c \<noteq> CHR 0xD7)
               then char_of (of_char c + (32::nat)) else c) s"

fun replaceBracket :: "string \<Rightarrow> string" where
  \<comment> \<open>\<open>replace("[", " ")\<close>: the first occurrence only\<close>
  "replaceBracket [] = []"
| "replaceBracket (c # cs) = (if c = CHR ''['' then CHR '' '' # cs else c # replaceBracket cs)"

fun showNat :: "nat \<Rightarrow> string" where
  \<comment> \<open>a template literal of a natural number\<close>
  "showNat n = (if n < 10 then [char_of (48 + n)] else showNat (n div 10) @ [char_of (48 + n mod 10)])"

declare showNat.simps [simp del]

fun toStr :: "'n JSNumbers \<Rightarrow> JSValue \<Rightarrow> string" where
  \<comment> \<open>a value inside a template literal\<close>
  "toStr R JSUndefined = ''undefined''"
| "toStr R JSNull = ''null''"
| "toStr R (JSBoolean b) = (if b then ''true'' else ''false'')"
| "toStr R (JSNumber l) = numberToString R l"
| "toStr R (JSString s) = s"
| "toStr R (JSObject ps) = ''[object Object]''"

subsection \<open>\<open>sortVariables\<close>\<close>

record Variable =
  vname :: string
  vvalue :: string
  variablesReference :: nat
  indexedVariables :: "nat option"
  namedVariables :: "nat option"

definition sortVariables :: "('n::linorder) JSNumbers \<Rightarrow> Variable \<Rightarrow> Variable \<Rightarrow> int" where
  \<comment> \<open>the sign of the result; \<open>aAsNum - bAsNum\<close> is negative, zero (or \<open>NaN\<close>, which \<open>sort\<close>
      reads as zero) or positive as \<open>aAsNum\<close> is below, equal to or above \<open>bAsNum\<close>\<close>
  "sortVariables R a b =
     (let aIsBracketted = startsWith (vname a) ''[['';
          bIsBracketted = startsWith (vname b) ''[[''
      in if aIsBracketted \<noteq> bIsBracketted then (if aIsBracketted then - 1 else 1)
         else
           (let aIsNum = \<not> Number_isNaN (vname a);
                bIsNum = \<not> Number_isNaN (vname b)
            in if aIsNum \<noteq> bIsNum then (if aIsNum then - 1 else 1)
               else if aIsNum \<and> bIsNum then
                 (if toNumber R (vname a) < toNumber R (vname b) then - 1
                  else if toNumber R (vname a) = toNumber R (vname b) then 0 else 1)
               else
                 (let aName = replaceBracket (vname a);
                      bName = replaceBracket (vname b);
                      aNameLower = toLowerCase aName;
                      bNameLower = toLowerCase bName;
                      aName' = (if aNameLower \<noteq> bNameLower then aNameLower else aName);
                      bName' = (if aNameLower \<noteq> bNameLower then bNameLower else bName)
                  in if aName' = bName' then 0 else if aName' < bName' then - 1 else 1)))"

fun insertSorted :: "('a \<Rightarrow> 'a \<Rightarrow> int) \<Rightarrow> 'a \<Rightarrow> 'a list \<Rightarrow> 'a list" where
  "insertSorted cmp x [] = [x]"
| "insertSorted cmp x (y # ys) = (if cmp x y \<le> 0 then x # y # ys else y # insertSorted cmp x ys)"

definition arraySort :: "('a \<Rightarrow> 'a \<Rightarrow> int) \<Rightarrow> 'a list \<Rightarrow> 'a list" where
  \<comment> \<open>\<open>Array.prototype.sort\<close> with a comparator: a stable sort\<close>
  "arraySort cmp xs = foldr (insertSorted cmp) xs []"

subsection \<open>The handles of composite values\<close>

text \<open>
  Modelled from the spec: the class \<open>Handles\<close> of the package \<open>vscode-debugadapter\<close> is
  missing from the sources. The spec gives it three operations: \<open>create\<close> returns a new
  handle for a path, \<open>get\<close> resolves a handle to its path, \<open>reset\<close> invalidates every
  handle; handles start at the value the session passes, \<open>ScopeType.Local + 1\<close>.
\<close>

record Handles =
  startHandle :: nat
  nextHandle :: nat
  handleMap :: "nat \<Rightarrow> string option"

definition Handles_new :: "nat \<Rightarrow> Handles" where
  "Handles_new start = \<lparr>startHandle = start, nextHandle = start, handleMap = Map.empty\<rparr>"

definition Handles_create :: "Handles \<Rightarrow> string \<Rightarrow> nat \<times> Handles" where
  "Handles_create h v =
     (nextHandle h, h\<lparr>nextHandle := nextHandle h + 1, handleMap := (handleMap h)(nextHandle h \<mapsto> v)\<rparr>)"

definition Handles_get :: "Handles \<Rightarrow> nat \<Rightarrow> string option" where
  "Handles_get h k = handleMap h k"

definition Handles_reset :: "Handles \<Rightarrow> Handles" where
  "Handles_reset h = Handles_new (startHandle h)"

definition ScopeType_Local :: nat where
  "ScopeType_Local = 1"

definition variableHandles0 :: Handles where
  \<comment> \<open>\<open>new Handles<string>(ScopeType.Local + 1)\<close>\<close>
  "variableHandles0 = Handles_new (ScopeType_Local + 1)"

subsection \<open>\<open>handleVariable\<close> and \<open>variablesRequest\<close>\<close>

datatype session_error =
    TypeError
  | InvalidRef
  | UnhandledRequest
  | UnexpectedFilter string

lemma digitsToNat_showNat: "digitsToNat (showNat n) = n"
proof (induction n rule: showNat.induct)
  case (1 n)
  show ?case
  proof (cases "n < 10")
    case True
    then show ?thesis by (subst showNat.simps) (simp add: digitsToNat_def)
  next
    case False
    have "digitsToNat (showNat n) = 10 * digitsToNat (showNat (n div 10)) + n mod 10"
      using False by (subst showNat.simps) (simp add: digitsToNat_def)
    with 1 False show ?thesis by simp
  qed
qed

function countIndexed :: "(string \<times> 'v) list \<Rightarrow> nat \<Rightarrow> nat" where
  \<comment> \<open>\<open>while (true) { if (`${indexedVariables + 1}` in value) indexedVariables++; else break; }\<close>\<close>
  "countIndexed tbl n =
     (if hasProp tbl (showNat (n + 1)) then countIndexed tbl (n + 1) else n)"
  by pat_completeness auto
termination
proof (relation "measure (\<lambda>(tbl, n). Suc (Max (insert 0 (digitsToNat ` fst ` set tbl))) - n)")
  show "wf (measure (\<lambda>(tbl :: (string \<times> 'v) list, n). Suc (Max (insert 0 (digitsToNat ` fst ` set tbl))) - n))"
    by simp
next
  fix tbl :: "(string \<times> 'v) list" and n :: nat
  assume "hasProp tbl (showNat (n + 1))"
  then have "digitsToNat (showNat (n + 1)) \<in> insert 0 (digitsToNat ` fst ` set tbl)"
    unfolding hasProp_def by blast
  then have "n + 1 \<le> Max (insert 0 (digitsToNat ` fst ` set tbl))"
    unfolding digitsToNat_showNat by (intro Max_ge) auto
  then show "((tbl, n + 1), (tbl, n))
      \<in> measure (\<lambda>(tbl, n). Suc (Max (insert 0 (digitsToNat ` fst ` set tbl))) - n)"
    by simp
qed

declare countIndexed.simps [simp del]

definition indexedHint :: "(string \<times> 'v) list \<Rightarrow> nat" where
  \<comment> \<open>the loop, then \<open>indexedVariables > 0 ? indexedVariables + 1 : indexedVariables\<close>\<close>
  "indexedHint tbl =
     (let n = countIndexed tbl 0 in if n > 0 then n + 1 else n)"

definition quoted :: "string \<Rightarrow> string" where
  "quoted s = [CHR 0x22] @ s @ [CHR 0x22]"

definition scalarVariable :: "string \<Rightarrow> string \<Rightarrow> Variable" where
  \<comment> \<open>\<open>new Variable(key, valueStr, undefined, 0)\<close>\<close>
  "scalarVariable key valueStr =
     \<lparr>vname = key, vvalue = valueStr, variablesReference = 0,
      indexedVariables = Some 0, namedVariables = None\<rparr>"

definition tableVariable :: "Handles \<Rightarrow> string \<Rightarrow> string \<Rightarrow> (string \<times> 'v) list \<Rightarrow> Variable \<times> Handles" where
  \<comment> \<open>\<open>new Variable(key, "<table>", this.variableHandles.create(path), indexedVariables, 1)\<close>\<close>
  "tableVariable h key path tbl =
     (let (newRef, h') = Handles_create h path
      in (\<lparr>vname = key, vvalue = ''<table>'', variablesReference = newRef,
           indexedVariables = Some (indexedHint tbl), namedVariables = Some 1\<rparr>, h'))"

fun handleVariable :: "'n JSNumbers \<Rightarrow> Handles \<Rightarrow> JSValue \<Rightarrow> string \<Rightarrow> string
    \<Rightarrow> session_error + Variable \<times> Handles" where
  \<comment> \<open>\<open>typeof null\<close> is \<open>"object"\<close>, and \<open>in\<close> throws on \<open>null\<close>\<close>
  "handleVariable R h (JSString s) key ref = Inr (scalarVariable key (quoted s), h)"
| "handleVariable R h (JSNumber l) key ref = Inr (scalarVariable key (toStr R (JSNumber l)), h)"
| "handleVariable R h (JSBoolean b) key ref = Inr (scalarVariable key (toStr R (JSBoolean b)), h)"
| "handleVariable R h JSUndefined key ref = Inr (scalarVariable key ''nil'', h)"
| "handleVariable R h JSNull key ref = Inl TypeError"
| "handleVariable R h (JSObject tbl) key ref = Inr (tableVariable h key (ref @ '':'' @ key) tbl)"

definition localVariable :: "'n JSNumbers \<Rightarrow> nat \<Rightarrow> Handles \<Rightarrow> string \<times> LocalVar
    \<Rightarrow> session_error + Variable \<times> Handles" where
  \<comment> \<open>the body of the loop over the locals of the frame\<close>
  "localVariable R frameId h l =
     (let luaName = fst l; v = snd l in
      if type v = ''string'' then Inr (scalarVariable luaName (quoted (toStr R (val v))), h)
      else if type v = ''number'' \<or> type v = ''boolean'' then
        Inr (scalarVariable luaName (toStr R (val v)), h)
      else if type v = ''nil'' then Inr (scalarVariable luaName ''nil'', h)
      else if type v = ''table'' then
        (case val v of
           JSObject tbl \<Rightarrow> Inr (tableVariable h luaName (showNat frameId @ '':'' @ luaName) tbl)
         | _ \<Rightarrow> Inl TypeError)
      else if type v = ''function'' then Inr (scalarVariable luaName ''<function>'', h)
      else Inr (scalarVariable luaName (''['' @ type v @ '']''), h))"

fun splitColon :: "string \<Rightarrow> string list" where
  \<comment> \<open>\<open>split(":")\<close>\<close>
  "splitColon [] = [[]]"
| "splitColon (c # cs) =
     (if c = CHR '':'' then [] # splitColon cs
      else (case splitColon cs of [] \<Rightarrow> [[c]] | g # gs \<Rightarrow> (c # g) # gs))"

definition hexToNat :: "string \<Rightarrow> nat" where
  "hexToNat ds =
     foldl (\<lambda>n c. 16 * n + (if isDigit c then of_char c - 48
                             else if CHR ''a'' \<le> c then of_char c - 87 else of_char c - 55)) 0 ds"

definition parseIntIndex :: "string \<Rightarrow> nat option" where
  \<comment> \<open>\<open>parseInt\<close> as an array index: \<open>None\<close> for \<open>NaN\<close> and for a negative number, which
      index no element\<close>
  "parseIntIndex s =
     (let t = dropWhile isWhiteSpace s;
          neg = startsWith t ''-'';
          u = (if neg \<or> startsWith t ''+'' then tl t else t);
          hex = (startsWith u ''0x'' \<or> startsWith u ''0X'');
          ds = (if hex then takeWhile (\<lambda>c. c \<in> set ''0123456789abcdefABCDEF'') (drop 2 u)
                else takeWhile isDigit u);
          n = (if hex then hexToNat ds else digitsToNat ds)
      in if ds = [] \<or> (neg \<and> n \<noteq> 0) then None else Some n)"

fun getProp :: "JSValue \<Rightarrow> string \<Rightarrow> session_error + JSValue" where
  \<comment> \<open>\<open>tblVar[key]\<close>; the properties a value inherits are left out\<close>
  "getProp (JSObject ps) k = (case map_of ps k of Some v \<Rightarrow> Inr v | None \<Rightarrow> Inr JSUndefined)"
| "getProp JSNull k = Inl TypeError"
| "getProp JSUndefined k = Inl TypeError"
| "getProp (JSString s) k =
     (if k = ''length'' then Inr (JSNumber (showNat (length s)))
      else (case filter (\<lambda>i. showNat i = k) [0 ..< length s] of
              [] \<Rightarrow> Inr JSUndefined
            | i # _ \<Rightarrow> Inr (JSString [s ! i])))"
| "getProp v k = Inr JSUndefined"

fun forInKeys :: "JSValue \<Rightarrow> string list" where
  \<comment> \<open>the keys a \<open>for-in\<close> loop visits\<close>
  "forInKeys (JSObject ps) = map fst ps"
| "forInKeys (JSString s) = map showNat [0 ..< length s]"
| "forInKeys v = []"

record Session =
  crashInfo :: "CrashInfo option"
  frame :: nat
  variableHandles :: Handles

record VariablesArguments =
  variablesReference_arg :: nat
  filter_arg :: "string option"
  start_arg :: "int option"
  count_arg :: "int option"

datatype VariablesResponse = Failure | Body "Variable list"

definition memberVariable :: "'n JSNumbers \<Rightarrow> JSValue \<Rightarrow> string \<Rightarrow> Variable list \<times> Handles \<Rightarrow> string
    \<Rightarrow> session_error + Variable list \<times> Handles" where
  \<comment> \<open>\<open>variables.push(this.handleVariable(tblVar[key], key, ref))\<close>\<close>
  "memberVariable R tblVar ref acc key =
     (case getProp tblVar key of
        Inl e \<Rightarrow> Inl e
      | Inr v \<Rightarrow>
          (case handleVariable R (snd acc) v key ref of
             Inl e \<Rightarrow> Inl e
           | Inr (var, h') \<Rightarrow> Inr (fst acc @ [var], h')))"

definition collectVariables :: "'n JSNumbers \<Rightarrow> Session \<Rightarrow> CrashInfo \<Rightarrow> VariablesArguments
    \<Rightarrow> session_error + Variable list \<times> Handles" where
  \<comment> \<open>\<open>variablesRequest\<close> up to the call of \<open>sort\<close>\<close>
  "collectVariables R s ci args =
     (if variablesReference_arg args = ScopeType_Local then
        (if frame s < length (frames ci) then
           foldE (\<lambda>acc l. case localVariable R (frame s) (snd acc) l of
                     Inl e \<Rightarrow> Inl e
                   | Inr (var, h') \<Rightarrow> Inr (fst acc @ [var], h'))
             (locals (frames ci ! frame s)) ([], variableHandles s)
         else Inl TypeError)
      else
        (case Handles_get (variableHandles s) (variablesReference_arg args) of
           None \<Rightarrow> Inl TypeError
         | Some ref \<Rightarrow>
             (let parts = splitColon ref in
              if length parts < 2 then Inl InvalidRef
              else
                (case parseIntIndex (parts ! 0) of
                   None \<Rightarrow> Inl TypeError
                 | Some i \<Rightarrow>
                     if i < length (frames ci) then
                       (case map_of (locals (frames ci ! i)) (parts ! 1) of
                          None \<Rightarrow> Inl TypeError
                        | Some l \<Rightarrow>
                            (case foldE getProp (drop 2 parts) (val l) of
                               Inl e \<Rightarrow> Inl e
                             | Inr tblVar \<Rightarrow>
                                 if filter_arg args = Some ''named'' then
                                   foldE (memberVariable R tblVar ref)
                                     (filter (\<lambda>key. \<not> isInteger R key) (forInKeys tblVar))
                                     ([], variableHandles s)
                                 else if filter_arg args = Some ''indexed'' then
                                   (case (start_arg args, count_arg args) of
                                      (Some st, Some cnt) \<Rightarrow>
                                        foldE (memberVariable R tblVar ref)
                                          (map (\<lambda>i. showNat (nat i)) [max st 1 .. st + cnt - 1])
                                          ([], variableHandles s)
                                    | _ \<Rightarrow> Inl UnhandledRequest)
                                 else if filter_arg args = None then
                                   foldE (memberVariable R tblVar ref) (forInKeys tblVar)
                                     ([], variableHandles s)
                                 else Inl (UnexpectedFilter (the (filter_arg args)))))
                     else Inl TypeError))))"

definition variablesRequest :: "('n::linorder) JSNumbers \<Rightarrow> Session \<Rightarrow> VariablesArguments
    \<Rightarrow> session_error + VariablesResponse \<times> Session" where
  "variablesRequest R s args =
     (case crashInfo s of
        None \<Rightarrow> Inr (Failure, s)
      | Some ci \<Rightarrow>
          (case collectVariables R s ci args of
             Inl e \<Rightarrow> Inl e
           | Inr (variables, h') \<Rightarrow>
               Inr (Body (arraySort (sortVariables R) variables), s\<lparr>variableHandles := h'\<rparr>)))"

definition continueRequest :: "Session \<Rightarrow> Session" where
  \<comment> \<open>\<open>this.variableHandles.reset()\<close>; the session then ends\<close>
  "continueRequest s = s\<lparr>variableHandles := Handles_reset (variableHandles s)\<rparr>"

subsection \<open>Notions the properties are stated with\<close>

text \<open>
  The tree a store holds, with the address of each node: the means to follow the store
  through the loop of \<open>createTree\<close>. \<open>rpath\<close> is the path from the root to the last node
  added, \<open>addAt k n\<close> adds the node \<open>n\<close> as the last child of the node at depth \<open>k\<close> of that
  path, \<open>repr\<close> says that the store holds the tree, \<open>erase\<close> forgets the addresses.
\<close>

datatype itree = INode (iroot: nat) (isubs: "itree list")

lemma size_last_itree [termination_simp]: "ts \<noteq> [] \<Longrightarrow> size (last ts) < Suc (size_list size ts)"
  by (induction ts) auto

fun rpath :: "itree \<Rightarrow> nat list" where
  "rpath (INode i ts) = i # (if ts = [] then [] else rpath (last ts))"

fun addAt :: "nat \<Rightarrow> nat \<Rightarrow> itree \<Rightarrow> itree" where
  "addAt 0 n (INode i ts) = INode i (ts @ [INode n []])"
| "addAt (Suc k) n (INode i ts) = INode i (if ts = [] then [] else butlast ts @ [addAt k n (last ts)])"

fun ilabels :: "nat \<Rightarrow> itree \<Rightarrow> (nat \<times> nat) list" where
  "ilabels d (INode i ts) = (d, i) # concat (map (ilabels (Suc d)) ts)"

fun repr :: "Node list \<Rightarrow> itree \<Rightarrow> bool" where
  "repr st (INode i ts) =
     (i < length st \<and> nchildren (st ! i) = map iroot ts
      \<and> (\<forall>t \<in> set ts. i < iroot t \<and> nparent (st ! iroot t) = Some i \<and> repr st t))"

fun erase :: "Node list \<Rightarrow> itree \<Rightarrow> LineInfo" where
  "erase st (INode i ts) = LineInfo (ncontent (st ! i)) (map (erase st) ts)"

text \<open>
  The depth-first traversal of a tree, parents before children: the content of every
  node below the root with its depth, the children of the root having depth \<open>0\<close>.
\<close>

fun walk :: "nat \<Rightarrow> LineInfo \<Rightarrow> (nat \<times> string) list" where
  "walk d (LineInfo c cs) = (d, c) # concat (map (walk (Suc d)) cs)"

definition traversal :: "LineInfo \<Rightarrow> (nat \<times> string) list" where
  "traversal t = map (\<lambda>(d, c). (d - 1, c)) (tl (walk 0 t))"

fun idx :: "itree \<Rightarrow> nat list" where
  "idx (INode i ts) = i # concat (map idx ts)"

definition leadingSpaces :: "string \<Rightarrow> nat" where
  "leadingSpaces line = length (takeWhile (\<lambda>c. c = CHR '' '') line)"

definition lineLevel :: "string \<Rightarrow> nat" where
  "lineLevel line = leadingSpaces line div 2"

definition lineContent :: "string \<Rightarrow> string" where
  "lineContent line = takeWhile isDot (drop (leadingSpaces line) line)"

text \<open>
  The input the amended claim C1 is about: every line has an even number of leading
  spaces and, after them, a character that is neither a space nor a line terminator; the
  first line is not indented, and no line is more than one level deeper than the line
  before it.
\<close>

fun wellIndentedFrom :: "nat \<Rightarrow> string list \<Rightarrow> bool" where
  "wellIndentedFrom maxLevel [] = True"
| "wellIndentedFrom maxLevel (l # ls) =
     (lineContent l \<noteq> [] \<and> even (leadingSpaces l) \<and> lineLevel l \<le> maxLevel
      \<and> wellIndentedFrom (lineLevel l + 1) ls)"

definition wellIndented :: "string list \<Rightarrow> bool" where
  "wellIndented lines = wellIndentedFrom 0 lines"

text \<open>The invariant of the loop, after the lines with the levels and contents \<open>ps\<close>.\<close>

definition treeInv :: "TreeState \<Rightarrow> itree \<Rightarrow> (nat \<times> string) list \<Rightarrow> bool" where
  "treeInv s T ps =
     (repr (store s) T \<and> iroot T = 0
      \<and> idx T = [0 ..< length (store s)]
      \<and> map fst (ilabels 0 T) = 0 # map (\<lambda>p. Suc (fst p)) ps
      \<and> map ncontent (store s) = [] # map snd ps
      \<and> length (rpath T) = (if ps = [] then 1 else currentLevel s + 2)
      \<and> last (rpath T) = currentNode s
      \<and> (ps = [] \<longrightarrow> currentLevel s = 0))"

text \<open>The input claim C1 speaks of: even indentation, and no jump from a line to the next.\<close>

definition indentationConsistent :: "string list \<Rightarrow> bool" where
  "indentationConsistent lines =
     (list_all (\<lambda>l. even (leadingSpaces l)) lines
      \<and> list_all (\<lambda>(a, b). lineLevel b \<le> lineLevel a + 1) (zip lines (tl lines)))"

definition lines1 :: "string list" where
  "lines1 = [''Stack Trace:'', ''  TSM/Core.lua:10 <f>'', ''    a = 1'', ''  [C] <g>'', ''Debug Log:'']"


datatype handle_op = Create string | Reset

fun runHandles :: "Handles \<Rightarrow> handle_op list \<Rightarrow> Handles" where
  \<comment> \<open>the registry after a sequence of \<open>create\<close> and \<open>reset\<close> calls\<close>
  "runHandles h [] = h"
| "runHandles h (Create p # ops) = runHandles (snd (Handles_create h p)) ops"
| "runHandles h (Reset # ops) = runHandles (Handles_reset h) ops"

definition contiguousRun :: "(string \<times> 'v) list \<Rightarrow> nat \<Rightarrow> bool" where
  \<comment> \<open>the keys \<open>1\<close> to \<open>n\<close> are present and the key \<open>n + 1\<close> is not\<close>
  "contiguousRun tbl n =
     ((\<forall>m \<in> {1 .. n}. hasProp tbl (showNat m)) \<and> \<not> hasProp tbl (showNat (n + 1)))"

definition variableRank :: "Variable \<Rightarrow> nat" where
  \<comment> \<open>the three groups of names: \<open>[[\<close> first, then the numeric names, then the others\<close>
  "variableRank v = (if startsWith (vname v) ''[['' then 0 else if \<not> Number_isNaN (vname v) then 1 else 2)"

definition variableOrder :: "('n::linorder) JSNumbers \<Rightarrow> Variable \<Rightarrow> Variable \<Rightarrow> bool" where
  \<comment> \<open>\<open>a\<close> may stand before \<open>b\<close> in a sorted response\<close>
  "variableOrder R a b =
     (variableRank a < variableRank b
      \<or> (variableRank a = variableRank b
          \<and> (if variableRank a = 1 then toNumber R (vname a) \<le> toNumber R (vname b)
              else (let aName = replaceBracket (vname a); bName = replaceBracket (vname b)
                    in toLowerCase aName < toLowerCase bName
                       \<or> (toLowerCase aName = toLowerCase bName \<and> aName \<le> bName)))))"

definition R0 :: "nat JSNumbers" where
  \<comment> \<open>the numbers of the run time on names that are runs of decimal digits\<close>
  "R0 = \<lparr>toNumber = digitsToNat, numberToString = id, isInteger = list_all isDigit\<rparr>"

definition nilLocal :: "string \<Rightarrow> string \<times> LocalVar" where
  "nilLocal n = (n, \<lparr>val = JSNull, type = ''nil''\<rparr>)"

definition session9 :: "string list \<Rightarrow> Session" where
  "session9 names =
     \<lparr>crashInfo = Some \<lparr>errMsg = ''boom'',
                         frames = [\<lparr>name = ''f'', source = [], currentline = 0, func = ''f'',
                                    locals = map nilLocal names\<rparr>],
                         logLines = []\<rparr>,
      frame = 0, variableHandles = variableHandles0\<rparr>"

definition localsArgs :: VariablesArguments where
  "localsArgs = \<lparr>variablesReference_arg = ScopeType_Local, filter_arg = None, start_arg = None, count_arg = None\<rparr>"


definition headingType :: "LineInfo \<Rightarrow> string option" where
  \<comment> \<open>the heading a node of \<open>tree.children\<close> is read as by \<open>getCrashInfo\<close> of both parsers\<close>
  "headingType h = map_option fst (headingMatch (content h))"

definition sameButMsg :: "CrashInfo \<Rightarrow> CrashInfo \<Rightarrow> bool" where
  "sameButMsg s t = (frames s = frames t \<and> logLines s = logLines t)"

definition malformedStackHeader :: "LineInfo \<Rightarrow> bool" where
  \<comment> \<open>a \<open>Stack\<close> heading without a first frame line, or whose first frame line, after the
      search for its full path, does not match the pattern of an addon path\<close>
  "malformedStackHeader h =
     (case children h of
        [] \<Rightarrow> True
      | f # fs \<Rightarrow> firstStackFrameMatch (resolveFirstFrame (content f) (children h)) = None)"

definition stackHeaderError :: "LineInfo \<Rightarrow> error" where
  \<comment> \<open>what the \<open>Stack\<close> branch throws for such a heading\<close>
  "stackHeaderError h =
     (case children h of
        [] \<Rightarrow> EmptyStack
      | f # fs \<Rightarrow> FirstFrameUnparsed (resolveFirstFrame (content f) (children h)))"

definition tree6 :: LineInfo where
  "tree6 = LineInfo []
     [LineInfo ''Message: boom'' [], LineInfo ''Stack:'' [LineInfo ''[C]: in function error'' []]]"

definition tree8 :: LineInfo where
  "tree8 = LineInfo []
     [LineInfo ''Message: boom'' [],
      LineInfo ''Debug Log:'' [LineInfo ''newest'' [], LineInfo ''older'' [], LineInfo ''oldest'' []],
      LineInfo ''Stack Trace:'' [LineInfo ''TSM/Core.lua:10 <f>'' []]]"

definition frames10 :: "LineInfo list" where
  "frames10 = [LineInfo ''Stack Trace:'' [LineInfo ''TSM/Core.lua:10 <f>'' []]]"

definition stack10 :: "LineInfo list" where
  "stack10 = [LineInfo ''Stack:'' [LineInfo ''Interface/AddOns/Foo/Core.lua:10: in function f'' []]]"

section \<open>Properties of the value decoder\<close>

lemma endsWith_drop:
  "p \<noteq> [] \<Longrightarrow> (drop (length v - length p) v = p) = endsWith v p"
  by (cases "length p \<le> length v") (auto simp: endsWith_def)

text \<open>
  Claim C2, as stated: a value that ends with \<open>{\<close> is decoded as a table, so \<open>1 {\<close> is
  a table and not a number. The source tests the number before the table that ends with
  a brace, and \<open>parseFloat\<close> reads the \<open>1\<close>.
\<close>

theorem value_1_brace_is_number:
  "\<forall>K. parseLocalVar K (LineInfo ''x = 1 {'' []) = Inr (Some (''x'', JSNumber ''1'', ''number''))"
proof
  fix K
  have "nameValueMatch ''x = 1 {'' = Some (''x'', ''1 {'')" "strValueMatch ''1 {'' = None"
    "take 10 ''1 {'' \<noteq> ''<function>''" "take 1 ''1 {'' \<noteq> ''{''" "tonumber ''1 {'' = Some ''1''"
    by code_simp+
  then show "parseLocalVar K (LineInfo ''x = 1 {'' []) = Inr (Some (''x'', JSNumber ''1'', ''number''))"
    by simp
qed

text \<open>
  Claim C2, amended. For a line \<open>name = value\<close> whose value holds no quoted string and
  does not start with \<open><function>\<close>, the rules are tried in the order of the source:
  a value that starts with \<open>{\<close> is a table; otherwise a value with a numeric prefix is a
  number, also when it ends with a brace; otherwise a value that ends with \<open>{\<close> or \<open>{}\<close>
  is a table, with the name the line gives it. The members of a table are decoded from
  the children of the node, and the decoding fails when that of a member does.
\<close>

theorem decode_rule_order:
  assumes "nameValueMatch c = Some (nm, value)"
    and "strValueMatch value = None"
    and "take 10 value \<noteq> ''<function>''"
  shows "(take 1 value = ''{'' \<longrightarrow>
            parseLocalVar K (LineInfo c cs)
              = map_sum id (\<lambda>tbl. Some (nm, JSObject tbl, ''table'')) (parseMembers K cs []))
       \<and> (take 1 value \<noteq> ''{'' \<and> tonumber value \<noteq> None \<longrightarrow>
            parseLocalVar K (LineInfo c cs) = Inr (Some (nm, JSNumber (the (tonumber value)), ''number'')))
       \<and> (take 1 value \<noteq> ''{'' \<and> tonumber value = None
            \<and> (endsWith value ''{}'' \<or> endsWith value ''{'') \<longrightarrow>
            parseLocalVar K (LineInfo c cs)
              = map_sum id
                  (\<lambda>tbl. Some (nm, JSObject tbl,
                     (case tblNameMatch c of Some n \<Rightarrow> ''table<'' @ n @ ''>'' | None \<Rightarrow> ''table'')))
                  (parseMembers K cs []))"
proof (intro conjI impI)
  assume "take 1 value = ''{''"
  with assms show "parseLocalVar K (LineInfo c cs)
              = map_sum id (\<lambda>tbl. Some (nm, JSObject tbl, ''table'')) (parseMembers K cs [])"
    by (simp split: sum.splits)
next
  assume "take 1 value \<noteq> ''{'' \<and> tonumber value \<noteq> None"
  with assms show "parseLocalVar K (LineInfo c cs) = Inr (Some (nm, JSNumber (the (tonumber value)), ''number''))"
    by auto
next
  assume a: "take 1 value \<noteq> ''{'' \<and> tonumber value = None \<and> (endsWith value ''{}'' \<or> endsWith value ''{'')"
  then have "value \<noteq> ''nil''" by (auto simp: endsWith_def)
  moreover from a have "drop (length value - 2) value = ''{}'' \<or> drop (length value - 1) value = ''{''"
    using endsWith_drop[of "''{}''" "value"] endsWith_drop[of "''{''" "value"]
    by (simp add: numeral_2_eq_2)
  ultimately show "parseLocalVar K (LineInfo c cs)
              = map_sum id
                  (\<lambda>tbl. Some (nm, JSObject tbl,
                     (case tblNameMatch c of Some n \<Rightarrow> ''table<'' @ n @ ''>'' | None \<Rightarrow> ''table'')))
                  (parseMembers K cs [])"
    using assms a by (simp split: sum.splits)
qed

theorem decode_rule_order_witness:
  "parseLocalVar id (LineInfo ''t = {'' [LineInfo ''1 = true'' []])
     = Inr (Some (''t'', JSObject [(''1'', JSBoolean True)], ''table''))
   \<and> parseLocalVar id (LineInfo ''x = 1 {'' []) = Inr (Some (''x'', JSNumber ''1'', ''number''))
   \<and> parseLocalVar id (LineInfo ''f = Frame {'' [LineInfo ''a = nil'' []])
     = Inr (Some (''f'', JSObject [(''a'', JSNull)], ''table<Frame>''))"
proof -
  have 1: "nameValueMatch ''t = {'' = Some (''t'', ''{'')" "strValueMatch ''{'' = None"
    "take 10 ''{'' \<noteq> ''<function>''" "take 1 ''{'' = ''{''"
    "parseMembers id [LineInfo ''1 = true'' []] [] = Inr [(''1'', JSBoolean True)]"
    by code_simp+
  have 2: "nameValueMatch ''x = 1 {'' = Some (''x'', ''1 {'')" "strValueMatch ''1 {'' = None"
    "take 10 ''1 {'' \<noteq> ''<function>''" "take 1 ''1 {'' \<noteq> ''{''" "tonumber ''1 {'' = Some ''1''"
    by code_simp+
  have 3: "nameValueMatch ''f = Frame {'' = Some (''f'', ''Frame {'')" "strValueMatch ''Frame {'' = None"
    "take 10 ''Frame {'' \<noteq> ''<function>''" "take 1 ''Frame {'' \<noteq> ''{''" "tonumber ''Frame {'' = None"
    "endsWith ''Frame {'' ''{''" "tblNameMatch ''f = Frame {'' = Some ''Frame''"
    "parseMembers id [LineInfo ''a = nil'' []] [] = Inr [(''a'', JSNull)]"
    by code_simp+
  from decode_rule_order[OF 1(1-3), of id "[LineInfo ''1 = true'' []]"] 1(4,5)
  have a: "parseLocalVar id (LineInfo ''t = {'' [LineInfo ''1 = true'' []])
     = Inr (Some (''t'', JSObject [(''1'', JSBoolean True)], ''table''))" by simp
  from decode_rule_order[OF 2(1-3), of id "[]"] 2(4,5)
  have b: "parseLocalVar id (LineInfo ''x = 1 {'' []) = Inr (Some (''x'', JSNumber ''1'', ''number''))"
    by simp
  from decode_rule_order[OF 3(1-3), of id "[LineInfo ''a = nil'' []]"] 3(4-8)
  have c: "parseLocalVar id (LineInfo ''f = Frame {'' [LineInfo ''a = nil'' []])
     = Inr (Some (''f'', JSObject [(''a'', JSNull)], ''table<Frame>''))" by simp
  from a b c show ?thesis by simp
qed

section \<open>Properties of the interpreters\<close>

subsection \<open>Loops that may throw\<close>

lemma foldE_append:
  "foldE f (xs @ ys) s = (case foldE f xs s of Inl e \<Rightarrow> Inl e | Inr s' \<Rightarrow> foldE f ys s')"
  by (induction xs arbitrary: s) (auto split: sum.splits)

lemma foldE_preserves:
  assumes "\<And>s x s'. x \<in> set xs \<Longrightarrow> f s x = Inr s' \<Longrightarrow> P s \<Longrightarrow> P s'"
    and "foldE f xs s = Inr s'" and "P s"
  shows "P s'"
  using assms
proof (induction xs arbitrary: s)
  case Nil
  then show ?case by simp
next
  case (Cons x xs)
  from Cons.prems(2) obtain t where t: "f s x = Inr t" and r: "foldE f xs t = Inr s'"
    by (auto split: sum.splits)
  have "P t" using Cons.prems(1)[of x s t] t Cons.prems(3) by simp
  show ?case
    by (rule Cons.IH[OF _ r \<open>P t\<close>]) (use Cons.prems(1) in auto)
qed

lemma foldE_fails:
  "x \<in> set xs \<Longrightarrow> (\<And>s. \<exists>e. f s x = Inl e) \<Longrightarrow> \<exists>e. foldE f xs s = Inl e"
proof (induction xs arbitrary: s)
  case Nil
  then show ?case by simp
next
  case (Cons y ys)
  show ?case
  proof (cases "f s y")
    case (Inl e)
    then show ?thesis by simp
  next
    case (Inr t)
    from Cons.prems(2)[of s] Inr have "x \<noteq> y" by auto
    with Cons.prems(1) have "x \<in> set ys" by simp
    from Cons.IH[OF this Cons.prems(2), of t] Inr show ?thesis by simp
  qed
qed

subsection \<open>The log lines\<close>

lemma tsmHeading_logLines:
  "tsmHeading K ci g = Inr ci' \<Longrightarrow> headingType g \<noteq> Some ''Debug Log'' \<Longrightarrow> logLines ci' = logLines ci"
  by (auto simp: tsmHeading_def headingType_def split: option.splits prod.splits if_splits sum.splits)

lemma tsmHeading_debugLog:
  "tsmHeading K ci h = Inr ci' \<Longrightarrow> headingType h = Some ''Debug Log'' \<Longrightarrow>
     logLines ci' = rev (map content (children h))"
  by (auto simp: tsmHeading_def headingType_def rev_map split: option.splits prod.splits if_splits sum.splits)

text \<open>
  Claim C8. When the TSM interpreter returns a \<open>CrashInfo\<close> for a tree with a
  \<open>Debug Log\<close> heading, \<open>logLines\<close> is the reversed list of the contents of the heading's
  children. Should the file have several \<open>Debug Log\<close> headings, the last one is meant
  (no heading of that type follows \<open>h\<close>).
\<close>

theorem debugLog_reversed:
  assumes "TSM_getCrashInfo K tree = Inr ci"
    and "children tree = pre @ h # post"
    and "headingType h = Some ''Debug Log''"
    and "\<forall>g \<in> set post. headingType g \<noteq> Some ''Debug Log''"
  shows "logLines ci = rev (map content (children h))"
proof -
  from assms(1) have f: "foldE (tsmHeading K) (children tree) \<lparr>errMsg = [], frames = [], logLines = []\<rparr> = Inr ci"
    by (auto simp: TSM_getCrashInfo_def split: sum.splits if_splits)
  then obtain s1 s2 where
    1: "foldE (tsmHeading K) pre \<lparr>errMsg = [], frames = [], logLines = []\<rparr> = Inr s1"
    and 2: "tsmHeading K s1 h = Inr s2"
    and 3: "foldE (tsmHeading K) post s2 = Inr ci"
    unfolding assms(2) foldE_append by (auto split: sum.splits)
  have "logLines s2 = rev (map content (children h))"
    using tsmHeading_debugLog[OF 2 assms(3)] .
  moreover have "logLines ci = rev (map content (children h))"
    if "logLines s2 = rev (map content (children h))"
    by (rule foldE_preserves[where P = "\<lambda>s. logLines s = rev (map content (children h))", OF _ 3 that])
       (use assms(4) tsmHeading_logLines in auto)
  ultimately show ?thesis by simp
qed

theorem debugLog_reversed_witness:
  "TSM_getCrashInfo id tree8 =
     Inr \<lparr>errMsg = ''boom'',
          frames = [\<lparr>name = ''f'', source = ''Core.lua'', currentline = 10,
                     func = ''TSM/Core.lua:10'', locals = []\<rparr>],
          logLines = [''oldest'', ''older'', ''newest'']\<rparr>
   \<and> logLines (projr (TSM_getCrashInfo id tree8)) = rev [''newest'', ''older'', ''oldest'']"
proof -
  let ?h = "LineInfo ''Debug Log:'' [LineInfo ''newest'' [], LineInfo ''older'' [], LineInfo ''oldest'' []]"
  let ?post = "[LineInfo ''Stack Trace:'' [LineInfo ''TSM/Core.lua:10 <f>'' []]]"
  have 1: "TSM_getCrashInfo id tree8 =
     Inr \<lparr>errMsg = ''boom'',
          frames = [\<lparr>name = ''f'', source = ''Core.lua'', currentline = 10,
                     func = ''TSM/Core.lua:10'', locals = []\<rparr>],
          logLines = [''oldest'', ''older'', ''newest'']\<rparr>"
    by code_simp
  have 2: "children tree8 = [LineInfo ''Message: boom'' []] @ ?h # ?post"
    by (simp add: tree8_def)
  have 3: "headingType ?h = Some ''Debug Log''" by code_simp
  have 4: "\<forall>g \<in> set ?post. headingType g \<noteq> Some ''Debug Log''" by code_simp
  from debugLog_reversed[OF 1 2 3 4] 1 show ?thesis by simp
qed

subsection \<open>The error message\<close>

lemma tsmHeading_sameButMsg:
  assumes "sameButMsg s t"
  shows "(\<exists>e. tsmHeading K s g = Inl e \<and> tsmHeading K t g = Inl e)
       \<or> (\<exists>s' t'. tsmHeading K s g = Inr s' \<and> tsmHeading K t g = Inr t' \<and> sameButMsg s' t'
             \<and> (headingType g = Some ''Message'' \<longrightarrow> s' = t'))"
  using assms
  by (auto simp: tsmHeading_def headingType_def sameButMsg_def split: option.splits sum.splits)

lemma blizzardHeading_sameButMsg:
  assumes "sameButMsg s t"
  shows "(\<exists>e. blizzardHeading s g = Inl e \<and> blizzardHeading t g = Inl e)
       \<or> (\<exists>s' t'. blizzardHeading s g = Inr s' \<and> blizzardHeading t g = Inr t' \<and> sameButMsg s' t'
             \<and> (headingType g = Some ''Message'' \<longrightarrow> s' = t'))"
  using assms
  by (auto simp: blizzardHeading_def blizzardStack_def headingType_def sameButMsg_def Let_def
      split: option.splits sum.splits list.splits)

lemma foldE_sameButMsg:
  assumes step: "\<And>s t g. sameButMsg s t \<Longrightarrow>
       (\<exists>e. f s g = Inl e \<and> f t g = Inl e)
       \<or> (\<exists>s' t'. f s g = Inr s' \<and> f t g = Inr t' \<and> sameButMsg s' t'
             \<and> (headingType g = Some ''Message'' \<longrightarrow> s' = t'))"
    and "sameButMsg s t" and "\<exists>m \<in> set gs. headingType m = Some ''Message''"
  shows "foldE f gs s = foldE f gs t"
  using assms(2,3)
proof (induction gs arbitrary: s t)
  case Nil
  then show ?case by simp
next
  case (Cons g gs)
  from step[OF Cons.prems(1), of g] show ?case
  proof (elim disjE exE conjE)
    fix e assume "f s g = Inl e" "f t g = Inl e"
    then show ?thesis by simp
  next
    fix s' t'
    assume st: "f s g = Inr s'" "f t g = Inr t'" "sameButMsg s' t'"
      and m: "headingType g = Some ''Message'' \<longrightarrow> s' = t'"
    show ?thesis
    proof (cases "headingType g = Some ''Message''")
      case True
      with m st show ?thesis by simp
    next
      case False
      with Cons.prems(2) have "\<exists>m \<in> set gs. headingType m = Some ''Message''" by auto
      from Cons.IH[OF st(3) this] st show ?thesis by simp
    qed
  qed
qed

lemma tsmHeading_message:
  "headingMatch (content m) = Some (''Message'', c) \<Longrightarrow> tsmHeading K s m = Inr (s\<lparr>errMsg := stripTSM c\<rparr>)"
  by (simp add: tsmHeading_def)

lemma blizzardHeading_message:
  "headingMatch (content m) = Some (''Message'', c) \<Longrightarrow> blizzardHeading s m = Inr (s\<lparr>errMsg := stripTSM c\<rparr>)"
  by (simp add: blizzardHeading_def)

lemma tsmHeading_errMsg:
  "tsmHeading K ci g = Inr ci' \<Longrightarrow> headingType g \<noteq> Some ''Message'' \<Longrightarrow> errMsg ci' = errMsg ci"
  by (auto simp: tsmHeading_def headingType_def split: option.splits prod.splits if_splits sum.splits)

lemma blizzardHeading_errMsg:
  "blizzardHeading ci g = Inr ci' \<Longrightarrow> headingType g \<noteq> Some ''Message'' \<Longrightarrow> errMsg ci' = errMsg ci"
  by (auto simp: blizzardHeading_def blizzardStack_def headingType_def Let_def
      split: option.splits prod.splits if_splits sum.splits list.splits)

lemma last_message_wins:
  assumes pres: "\<And>s g s'. f s g = Inr s' \<Longrightarrow> headingType g \<noteq> Some ''Message'' \<Longrightarrow> errMsg s' = errMsg s"
    and msg: "\<And>s. f s m = Inr (s\<lparr>errMsg := x\<rparr>)"
    and run: "foldE f (pre @ m # post) s0 = Inr ci"
    and post: "\<forall>g \<in> set post. headingType g \<noteq> Some ''Message''"
  shows "errMsg ci = x"
proof -
  from run obtain s1 where 1: "foldE f pre s0 = Inr s1" and 3: "foldE f post (s1\<lparr>errMsg := x\<rparr>) = Inr ci"
    unfolding foldE_append by (auto simp: msg split: sum.splits)
  show ?thesis
    by (rule foldE_preserves[where P = "\<lambda>s. errMsg s = x", OF _ 3]) (use post pres in auto)
qed

lemma drop_earlier_message:
  assumes step: "\<And>s t g. sameButMsg s t \<Longrightarrow>
       (\<exists>e. f s g = Inl e \<and> f t g = Inl e)
       \<or> (\<exists>s' t'. f s g = Inr s' \<and> f t g = Inr t' \<and> sameButMsg s' t'
             \<and> (headingType g = Some ''Message'' \<longrightarrow> s' = t'))"
    and msg: "\<And>s. f s m = Inr (s\<lparr>errMsg := x\<rparr>)"
    and later: "\<exists>m' \<in> set rest. headingType m' = Some ''Message''"
  shows "foldE f (pre @ m # rest) s0 = foldE f (pre @ rest) s0"
proof (cases "foldE f pre s0")
  case (Inl e)
  then show ?thesis by (simp add: foldE_append)
next
  case (Inr s1)
  have "sameButMsg (s1\<lparr>errMsg := x\<rparr>) s1" by (simp add: sameButMsg_def)
  from foldE_sameButMsg[of f, OF step this later] show ?thesis
    using Inr by (simp add: foldE_append msg)
qed

text \<open>
  Claim C10, as stated: with more than one \<open>Message\<close> heading the interpretation does not
  fail. The TSM file below has two; its second one is empty, \<open>errMsg\<close> is overwritten
  with the empty string and the interpretation ends with \<open>Could not find error message\<close>,
  although the same file without the second heading is interpreted.
\<close>

theorem empty_last_Message_fails:
  "TSM_createTree [''Message: first'', ''Message:'', ''Stack Trace:'', ''  TSM/Core.lua:10 <f>'']
     = Inr (LineInfo [] [LineInfo ''Message: first'' [], LineInfo ''Message:'' [],
                         LineInfo ''Stack Trace:'' [LineInfo ''TSM/Core.lua:10 <f>'' []]])
   \<and> (\<forall>K. TSM_getCrashInfo K
          (LineInfo [] [LineInfo ''Message: first'' [], LineInfo ''Message:'' [],
                        LineInfo ''Stack Trace:'' [LineInfo ''TSM/Core.lua:10 <f>'' []]])
        = Inl NoErrorMessage)
   \<and> TSM_createTree [''Message: first'', ''Stack Trace:'', ''  TSM/Core.lua:10 <f>'']
     = Inr (LineInfo [] [LineInfo ''Message: first'' [],
                         LineInfo ''Stack Trace:'' [LineInfo ''TSM/Core.lua:10 <f>'' []]])
   \<and> (\<forall>K. TSM_getCrashInfo K
          (LineInfo [] [LineInfo ''Message: first'' [],
                        LineInfo ''Stack Trace:'' [LineInfo ''TSM/Core.lua:10 <f>'' []]])
        = Inr \<lparr>errMsg = ''first'',
               frames = [\<lparr>name = ''f'', source = ''Core.lua'', currentline = 10,
                          func = ''TSM/Core.lua:10'', locals = []\<rparr>],
               logLines = []\<rparr>)"
proof (intro conjI allI)
  show "TSM_createTree [''Message: first'', ''Message:'', ''Stack Trace:'', ''  TSM/Core.lua:10 <f>'']
     = Inr (LineInfo [] [LineInfo ''Message: first'' [], LineInfo ''Message:'' [],
                         LineInfo ''Stack Trace:'' [LineInfo ''TSM/Core.lua:10 <f>'' []]])"
    by code_simp
next
  fix K
  show "TSM_getCrashInfo K
          (LineInfo [] [LineInfo ''Message: first'' [], LineInfo ''Message:'' [],
                        LineInfo ''Stack Trace:'' [LineInfo ''TSM/Core.lua:10 <f>'' []]])
        = Inl NoErrorMessage"
    by code_simp
next
  show "TSM_createTree [''Message: first'', ''Stack Trace:'', ''  TSM/Core.lua:10 <f>'']
     = Inr (LineInfo [] [LineInfo ''Message: first'' [],
                         LineInfo ''Stack Trace:'' [LineInfo ''TSM/Core.lua:10 <f>'' []]])"
    by code_simp
next
  fix K
  show "TSM_getCrashInfo K
          (LineInfo [] [LineInfo ''Message: first'' [],
                        LineInfo ''Stack Trace:'' [LineInfo ''TSM/Core.lua:10 <f>'' []]])
        = Inr \<lparr>errMsg = ''first'',
               frames = [\<lparr>name = ''f'', source = ''Core.lua'', currentline = 10,
                          func = ''TSM/Core.lua:10'', locals = []\<rparr>],
               logLines = []\<rparr>"
    by code_simp
qed

text \<open>
  Claim C10, amended. In both interpreters a \<open>Message\<close> heading overwrites the message
  recorded before and is itself never the place of a failure: when the interpretation
  returns a \<open>CrashInfo\<close>, its \<open>errMsg\<close> is the content of the last \<open>Message\<close> heading
  without the prefix \<open>TSM/\<close>; and a \<open>Message\<close> heading that another one follows changes
  nothing, the interpretation ends (with the same \<open>CrashInfo\<close> or the same error) as it
  does without it. The interpretation can still fail: the TSM interpreter returns no
  \<open>CrashInfo\<close> when the content of the last \<open>Message\<close> heading is empty once the prefix
  is removed.
\<close>

theorem last_Message_overwrites:
  "(headingMatch (content m) = Some (''Message'', c)
      \<and> (\<forall>g \<in> set post. headingType g \<noteq> Some ''Message'') \<longrightarrow>
        (TSM_getCrashInfo K (LineInfo r (pre @ m # post)) = Inr ci \<longrightarrow> errMsg ci = stripTSM c)
      \<and> (Blizzard_getCrashInfo (LineInfo r (pre @ m # post)) = Inr ci' \<longrightarrow> errMsg ci' = stripTSM c))
   \<and> (headingType m = Some ''Message'' \<and> (\<exists>m' \<in> set rest. headingType m' = Some ''Message'') \<longrightarrow>
        TSM_getCrashInfo K (LineInfo r (pre @ m # rest)) = TSM_getCrashInfo K (LineInfo r (pre @ rest))
      \<and> Blizzard_getCrashInfo (LineInfo r (pre @ m # rest)) = Blizzard_getCrashInfo (LineInfo r (pre @ rest)))
   \<and> (headingMatch (content m) = Some (''Message'', c)
      \<and> (\<forall>g \<in> set post. headingType g \<noteq> Some ''Message'') \<and> stripTSM c = [] \<longrightarrow>
        (\<exists>e. TSM_getCrashInfo K (LineInfo r (pre @ m # post)) = Inl e))"
proof (intro conjI impI; (elim conjE)?)
  assume hm: "headingMatch (content m) = Some (''Message'', c)"
    and post: "\<forall>g \<in> set post. headingType g \<noteq> Some ''Message''"
    and run: "TSM_getCrashInfo K (LineInfo r (pre @ m # post)) = Inr ci"
  from run have "foldE (tsmHeading K) (pre @ m # post) \<lparr>errMsg = [], frames = [], logLines = []\<rparr> = Inr ci"
    by (auto simp: TSM_getCrashInfo_def split: sum.splits if_splits)
  from last_message_wins[of "tsmHeading K", OF tsmHeading_errMsg tsmHeading_message[OF hm] this post]
  show "errMsg ci = stripTSM c" by simp
next
  assume hm: "headingMatch (content m) = Some (''Message'', c)"
    and post: "\<forall>g \<in> set post. headingType g \<noteq> Some ''Message''"
    and run: "Blizzard_getCrashInfo (LineInfo r (pre @ m # post)) = Inr ci'"
  from run have "foldE blizzardHeading (pre @ m # post) \<lparr>errMsg = [], frames = [], logLines = []\<rparr> = Inr ci'"
    by (simp add: Blizzard_getCrashInfo_def)
  from last_message_wins[of blizzardHeading, OF blizzardHeading_errMsg blizzardHeading_message[OF hm] this post]
  show "errMsg ci' = stripTSM c" by simp
next
  assume "headingType m = Some ''Message''" and later: "\<exists>m' \<in> set rest. headingType m' = Some ''Message''"
  then obtain c where hm: "headingMatch (content m) = Some (''Message'', c)"
    by (auto simp: headingType_def)
  have "foldE (tsmHeading K) (pre @ m # rest) s0 = foldE (tsmHeading K) (pre @ rest) s0" for s0
    by (rule drop_earlier_message[OF tsmHeading_sameButMsg tsmHeading_message[OF hm] later])
  then show "TSM_getCrashInfo K (LineInfo r (pre @ m # rest)) = TSM_getCrashInfo K (LineInfo r (pre @ rest))"
    by (simp add: TSM_getCrashInfo_def)
next
  assume "headingType m = Some ''Message''" and later: "\<exists>m' \<in> set rest. headingType m' = Some ''Message''"
  then obtain c where hm: "headingMatch (content m) = Some (''Message'', c)"
    by (auto simp: headingType_def)
  have "foldE blizzardHeading (pre @ m # rest) s0 = foldE blizzardHeading (pre @ rest) s0" for s0
    by (rule drop_earlier_message[OF blizzardHeading_sameButMsg blizzardHeading_message[OF hm] later])
  then show "Blizzard_getCrashInfo (LineInfo r (pre @ m # rest)) = Blizzard_getCrashInfo (LineInfo r (pre @ rest))"
    by (simp add: Blizzard_getCrashInfo_def)
next
  assume hm: "headingMatch (content m) = Some (''Message'', c)"
    and post: "\<forall>g \<in> set post. headingType g \<noteq> Some ''Message''"
    and empty: "stripTSM c = []"
  show "\<exists>e. TSM_getCrashInfo K (LineInfo r (pre @ m # post)) = Inl e"
  proof (cases "TSM_getCrashInfo K (LineInfo r (pre @ m # post))")
    case (Inl e)
    then show ?thesis by blast
  next
    case (Inr ci0)
    then have run: "foldE (tsmHeading K) (pre @ m # post) \<lparr>errMsg = [], frames = [], logLines = []\<rparr> = Inr ci0"
      and full: "errMsg ci0 \<noteq> []"
      by (auto simp: TSM_getCrashInfo_def split: sum.splits if_splits)
    from last_message_wins[of "tsmHeading K", OF tsmHeading_errMsg tsmHeading_message[OF hm] run post]
    have "errMsg ci0 = stripTSM c" by simp
    with full empty show ?thesis by simp
  qed
qed

theorem last_Message_overwrites_witness:
  "TSM_getCrashInfo id (LineInfo [] (LineInfo ''Message: first'' [] # LineInfo ''Message: TSM/second'' [] # frames10))
     = Inr \<lparr>errMsg = ''second'',
            frames = [\<lparr>name = ''f'', source = ''Core.lua'', currentline = 10,
                       func = ''TSM/Core.lua:10'', locals = []\<rparr>],
            logLines = []\<rparr>
   \<and> TSM_getCrashInfo id (LineInfo [] (LineInfo ''Message: first'' [] # LineInfo ''Message: TSM/second'' [] # frames10))
     = TSM_getCrashInfo id (LineInfo [] (LineInfo ''Message: TSM/second'' [] # frames10))
   \<and> Blizzard_getCrashInfo (LineInfo [] (LineInfo ''Message: first'' [] # LineInfo ''Message: TSM/second'' [] # stack10))
     = Inr \<lparr>errMsg = ''second'',
            frames = [\<lparr>name = ''?'', source = ''Core.lua'', currentline = 10, func = ''?'', locals = []\<rparr>],
            logLines = []\<rparr>
   \<and> Blizzard_getCrashInfo (LineInfo [] (LineInfo ''Message: first'' [] # LineInfo ''Message: TSM/second'' [] # stack10))
     = Blizzard_getCrashInfo (LineInfo [] (LineInfo ''Message: TSM/second'' [] # stack10))
   \<and> headingMatch ''Message: TSM/'' = Some (''Message'', ''TSM/'') \<and> stripTSM ''TSM/'' = []
   \<and> TSM_getCrashInfo id (LineInfo [] (LineInfo ''Message: first'' [] # LineInfo ''Message: TSM/'' [] # frames10))
     = Inl NoErrorMessage"
proof -
  let ?m1 = "LineInfo ''Message: first'' []" and ?m2 = "LineInfo ''Message: TSM/second'' []"
  let ?m3 = "LineInfo ''Message: TSM/'' []"
  have a: "headingType ?m1 = Some ''Message''" by code_simp
  have b: "headingMatch (content ?m2) = Some (''Message'', ''TSM/second'')" by code_simp
  then have b': "headingType ?m2 = Some ''Message''" by (simp add: headingType_def)
  have c: "\<forall>g \<in> set frames10. headingType g \<noteq> Some ''Message''" by code_simp
  have d: "\<forall>g \<in> set stack10. headingType g \<noteq> Some ''Message''" by code_simp
  have e: "stripTSM ''TSM/second'' = ''second''" by code_simp
  have t: "TSM_getCrashInfo id (LineInfo [] ([?m1] @ ?m2 # frames10))
     = Inr \<lparr>errMsg = ''second'',
            frames = [\<lparr>name = ''f'', source = ''Core.lua'', currentline = 10,
                       func = ''TSM/Core.lua:10'', locals = []\<rparr>],
            logLines = []\<rparr>"
    by code_simp
  have z: "Blizzard_getCrashInfo (LineInfo [] ([?m1] @ ?m2 # stack10))
     = Inr \<lparr>errMsg = ''second'',
            frames = [\<lparr>name = ''?'', source = ''Core.lua'', currentline = 10, func = ''?'', locals = []\<rparr>],
            logLines = []\<rparr>"
    by code_simp
  from last_Message_overwrites[of ?m2 "''TSM/second''" frames10 id "[]" "[?m1]"] b c t e
  have 1: "errMsg (projr (TSM_getCrashInfo id (LineInfo [] ([?m1] @ ?m2 # frames10)))) = ''second''"
    by simp
  from last_Message_overwrites[of ?m1 _ _ id "[]" "[]" _ _ "?m2 # frames10"] a b'
  have 2: "TSM_getCrashInfo id (LineInfo [] (?m1 # ?m2 # frames10))
         = TSM_getCrashInfo id (LineInfo [] (?m2 # frames10))"
    by simp
  from last_Message_overwrites[of ?m1 _ _ id "[]" "[]" _ _ "?m2 # stack10"] a b'
  have 3: "Blizzard_getCrashInfo (LineInfo [] (?m1 # ?m2 # stack10))
         = Blizzard_getCrashInfo (LineInfo [] (?m2 # stack10))"
    by simp
  have f: "headingMatch (content ?m3) = Some (''Message'', ''TSM/'')" by code_simp
  have g: "stripTSM ''TSM/'' = []" by code_simp
  have u: "TSM_getCrashInfo id (LineInfo [] ([?m1] @ ?m3 # frames10)) = Inl NoErrorMessage" by code_simp
  from last_Message_overwrites[of ?m3 "''TSM/''" frames10 id "[]" "[?m1]"] f c g
  have 4: "\<exists>e. TSM_getCrashInfo id (LineInfo [] ([?m1] @ ?m3 # frames10)) = Inl e"
    by blast
  from 1 2 3 4 t z f g u show ?thesis by simp
qed

subsection \<open>Incomplete crash information\<close>

text \<open>The TSM interpreter returns no \<open>CrashInfo\<close> without a message or without frames.\<close>

lemma TSM_getCrashInfo_complete:
  "TSM_getCrashInfo K tree = Inr ci \<Longrightarrow> errMsg ci \<noteq> [] \<and> frames ci \<noteq> []"
  by (auto simp: TSM_getCrashInfo_def split: sum.splits if_splits)

text \<open>
  Claim C3 asks the same of the Blizzard interpreter, whose \<open>getCrashInfo\<close> has no such
  test: a file with the one line \<open>Message: boom\<close> is interpreted with no frames, and the
  empty file with no message either.
\<close>

theorem Blizzard_accepts_incomplete:
  "Blizzard_createTree [''Message: boom''] = Inr (LineInfo [] [LineInfo ''Message: boom'' []])
   \<and> Blizzard_getCrashInfo (LineInfo [] [LineInfo ''Message: boom'' []])
       = Inr \<lparr>errMsg = ''boom'', frames = [], logLines = []\<rparr>
   \<and> Blizzard_createTree [] = Inr (LineInfo [] [])
   \<and> Blizzard_getCrashInfo (LineInfo [] []) = Inr \<lparr>errMsg = [], frames = [], logLines = []\<rparr>"
  by code_simp

subsection \<open>The first line of the stack\<close>

lemma blizzardHeading_malformed:
  "headingType h = Some ''Stack'' \<Longrightarrow> malformedStackHeader h \<Longrightarrow>
     blizzardHeading ci h = Inl (stackHeaderError h)"
  by (auto simp: blizzardHeading_def blizzardStack_def headingType_def malformedStackHeader_def
      stackHeaderError_def Let_def split: list.splits)

text \<open>
  On a tree, the \<open>Stack\<close> branch of the Blizzard interpreter throws for a \<open>Stack\<close>
  heading that has no child (\<open>Crash file has an empty stack\<close>) and for one whose first
  child, after the search for its full path among the children, is not matched by
  \<open>firstStackFrameMatch\<close> (\<open>Failed to parse first stack frame\<close>); it is the error of the
  interpretation when the headings before were read without one.
\<close>

lemma stack_branch_throws:
  assumes "headingType h = Some ''Stack''" and "malformedStackHeader h" and "h \<in> set (children tree)"
  shows "(\<exists>e. Blizzard_getCrashInfo tree = Inl e)
       \<and> (\<forall>pre post ci. children tree = pre @ h # post
              \<and> foldE blizzardHeading pre \<lparr>errMsg = [], frames = [], logLines = []\<rparr> = Inr ci
            \<longrightarrow> Blizzard_getCrashInfo tree = Inl (stackHeaderError h))"
proof (intro conjI allI impI)
  show "\<exists>e. Blizzard_getCrashInfo tree = Inl e"
    unfolding Blizzard_getCrashInfo_def
    by (rule foldE_fails[OF assms(3)]) (simp add: blizzardHeading_malformed[OF assms(1,2)])
next
  fix pre post ci
  assume "children tree = pre @ h # post
      \<and> foldE blizzardHeading pre \<lparr>errMsg = [], frames = [], logLines = []\<rparr> = Inr ci"
  then show "Blizzard_getCrashInfo tree = Inl (stackHeaderError h)"
    by (simp add: Blizzard_getCrashInfo_def foldE_append blizzardHeading_malformed[OF assms(1,2)])
qed

lemma stack_branch_throws_example:
  "headingType (LineInfo ''Stack:'' [LineInfo ''[C]: in function error'' []]) = Some ''Stack''
   \<and> malformedStackHeader (LineInfo ''Stack:'' [LineInfo ''[C]: in function error'' []])
   \<and> Blizzard_createTree [''Message: boom'', ''Stack: [C]: in function error''] = Inr tree6
   \<and> Blizzard_getCrashInfo tree6 = Inl (FirstFrameUnparsed ''[C]: in function error'')"
proof -
  let ?h = "LineInfo ''Stack:'' [LineInfo ''[C]: in function error'' []]"
  have 1: "headingType ?h = Some ''Stack''" by code_simp
  have 2: "malformedStackHeader ?h" by code_simp
  have 3: "?h \<in> set (children tree6)" by (simp add: tree6_def)
  have 4: "children tree6 = [LineInfo ''Message: boom'' []] @ ?h # []" by (simp add: tree6_def)
  have 5: "foldE blizzardHeading [LineInfo ''Message: boom'' []] \<lparr>errMsg = [], frames = [], logLines = []\<rparr>
      = Inr \<lparr>errMsg = ''boom'', frames = [], logLines = []\<rparr>" by code_simp
  have 6: "stackHeaderError ?h = FirstFrameUnparsed ''[C]: in function error''" by code_simp
  have 7: "Blizzard_createTree [''Message: boom'', ''Stack: [C]: in function error''] = Inr tree6" by code_simp
  from stack_branch_throws[OF 1 2 3] 4 5 have "Blizzard_getCrashInfo tree6 = Inl (stackHeaderError ?h)"
    by blast
  with 1 2 6 7 show ?thesis by simp
qed

text \<open>
  Claim C6 asks it of every crash file, also of one whose \<open>Stack\<close> section has no first
  frame line. \<open>getCrashInfo\<close> has the test for it, and a tree whose \<open>Stack\<close> heading has
  no child is refused; but \<open>createTree\<close> makes a heading only of a line with text after
  \<open>: \<close>, so it never builds that tree. The line \<open>Stack:\<close> (or \<open>Stack: \<close>) is no
  heading for it: it is hung below the heading before, also when frame lines follow
  it, and the file is interpreted, with no frame.
\<close>

theorem stack_without_frame_accepted:
  "Blizzard_getCrashInfo (LineInfo [] [LineInfo ''Message: boom'' [], LineInfo ''Stack:'' []])
     = Inl EmptyStack
   \<and> Blizzard_createTree [''Message: boom'', ''Stack:'']
     = Inr (LineInfo [] [LineInfo ''Message: boom'' [LineInfo ''Stack:'' []]])
   \<and> Blizzard_getCrashInfo (LineInfo [] [LineInfo ''Message: boom'' [LineInfo ''Stack:'' []]])
     = Inr \<lparr>errMsg = ''boom'', frames = [], logLines = []\<rparr>
   \<and> Blizzard_createTree [''Message: boom'', ''Stack: '']
     = Inr (LineInfo [] [LineInfo ''Message: boom'' [LineInfo ''Stack: '' []]])
   \<and> Blizzard_getCrashInfo (LineInfo [] [LineInfo ''Message: boom'' [LineInfo ''Stack: '' []]])
     = Inr \<lparr>errMsg = ''boom'', frames = [], logLines = []\<rparr>
   \<and> Blizzard_createTree [''Message: boom'', ''Stack:'', ''[C]: in function error'']
     = Inr (LineInfo [] [LineInfo ''Message: boom''
              [LineInfo ''Stack:'' [], LineInfo ''[C]: in function error'' []]])
   \<and> Blizzard_getCrashInfo (LineInfo [] [LineInfo ''Message: boom''
              [LineInfo ''Stack:'' [], LineInfo ''[C]: in function error'' []]])
     = Inr \<lparr>errMsg = ''boom'', frames = [], logLines = []\<rparr>"
  by code_simp


section \<open>Properties of the tree builder\<close>

subsection \<open>Trees in the store\<close>

lemma rpath_nonempty [simp]: "rpath t \<noteq> []"
  by (cases t) simp

lemma hd_rpath [simp]: "hd (rpath t) = iroot t"
  by (cases t) simp

lemma iroot_addAt [simp]: "iroot (addAt k n t) = iroot t"
  by (cases k; cases t) simp_all

lemma ilabels_addAt:
  "k < length (rpath t) \<Longrightarrow> ilabels d (addAt k n t) = ilabels d t @ [(Suc (d + k), n)]"
proof (induction k arbitrary: t d)
  case 0
  then show ?case by (cases t) simp
next
  case (Suc k)
  obtain i ts where t: "t = INode i ts" by (cases t)
  with Suc.prems have ne: "ts \<noteq> []" and len: "k < length (rpath (last ts))"
    by (auto split: if_splits)
  have "concat (map (ilabels (Suc d)) (butlast ts @ [addAt k n (last ts)]))
      = concat (map (ilabels (Suc d)) (butlast ts @ [last ts])) @ [(Suc (Suc d + k), n)]"
    using Suc.IH[OF len, of "Suc d"] by simp
  then show ?case using t ne by simp
qed

lemma rpath_addAt:
  "k < length (rpath t) \<Longrightarrow> rpath (addAt k n t) = take (Suc k) (rpath t) @ [n]"
proof (induction k arbitrary: t)
  case 0
  then show ?case by (cases t) simp
next
  case (Suc k)
  obtain i ts where t: "t = INode i ts" by (cases t)
  with Suc.prems have ne: "ts \<noteq> []" and len: "k < length (rpath (last ts))"
    by (auto split: if_splits)
  from Suc.IH[OF len] show ?case using t ne by simp
qed

lemma walk_erase:
  "walk d (erase st t) = map (\<lambda>(d', i). (d', ncontent (st ! i))) (ilabels d t)"
proof (induction t arbitrary: d)
  case (INode i ts)
  show ?case by (simp add: INode map_concat comp_def cong: map_cong)
qed

lemma repr_reify: "repr st t \<Longrightarrow> reify st (iroot t) = erase st t"
proof (induction t)
  case (INode i ts)
  then have f: "filter (\<lambda>c. i < c \<and> c < length st) (map iroot ts) = map iroot ts"
    by (auto simp: filter_id_conv) (case_tac x, auto)
  have "map (reify st) (map iroot ts) = map (erase st) ts"
    using INode by simp
  with f INode.prems show ?case
    by (subst reify.simps) simp
qed

lemma map_snd_ilabels: "map snd (ilabels d t) = idx t"
  by (induction t arbitrary: d) (simp add: map_concat comp_def cong: map_cong)

lemma iroot_in_idx: "iroot t \<in> set (idx t)"
  by (cases t) simp

lemma rpath_subset_idx: "set (rpath t) \<subseteq> set (idx t)"
proof (induction t)
  case (INode i ts)
  show ?case
  proof (cases "ts = []")
    case True
    then show ?thesis by simp
  next
    case False
    then have "last ts \<in> set ts" by simp
    with INode[OF this] False show ?thesis by auto
  qed
qed

lemma repr_bound: "repr st t \<Longrightarrow> j \<in> set (idx t) \<Longrightarrow> j < length st"
  by (induction t) auto

lemma repr_frame:
  "repr st t \<Longrightarrow> length st \<le> length st' \<Longrightarrow> (\<And>j. j \<in> set (idx t) \<Longrightarrow> st' ! j = st ! j) \<Longrightarrow> repr st' t"
proof (induction t)
  case (INode i ts)
  have "repr st' u" if "u \<in> set ts" for u
    using INode.IH[OF that] INode.prems that by auto
  moreover have "st' ! iroot u = st ! iroot u" if "u \<in> set ts" for u
  proof -
    have "iroot u \<in> set (idx (INode i ts))" using that iroot_in_idx[of u] by auto
    then show ?thesis by (rule INode.prems(3))
  qed
  moreover have "st' ! i = st ! i" using INode.prems(3)[of i] by simp
  ultimately show ?case using INode.prems(1,2) by auto
qed

lemma pushChild_length [simp]: "length (pushChild st p nd) = Suc (length st)"
  by (simp add: pushChild_def)

lemma pushChild_new [simp]: "pushChild st p nd ! length st = nd"
  by (simp add: pushChild_def nth_append)

lemma pushChild_other: "j < length st \<Longrightarrow> j \<noteq> p \<Longrightarrow> pushChild st p nd ! j = st ! j"
  by (simp add: pushChild_def nth_append)

lemma pushChild_parent: "p < length st \<Longrightarrow>
    pushChild st p nd ! p = (st ! p)\<lparr>nchildren := nchildren (st ! p) @ [length st]\<rparr>"
  by (simp add: pushChild_def nth_append)

lemma pushChild_nparent: "j < length st \<Longrightarrow> nparent (pushChild st p nd ! j) = nparent (st ! j)"
  by (cases "j = p") (simp_all add: pushChild_parent pushChild_other)

lemma pushChild_ncontent: "j < length st \<Longrightarrow> ncontent (pushChild st p nd ! j) = ncontent (st ! j)"
  by (cases "j = p") (simp_all add: pushChild_parent pushChild_other)

lemma repr_addAt:
  assumes "repr st t" and "sorted_wrt (<) (idx t)" and "k < length (rpath t)"
    and "nchildren nd = []" and "nparent nd = Some (rpath t ! k)"
  shows "repr (pushChild st (rpath t ! k) nd) (addAt k (length st) t)"
  using assms
proof (induction k arbitrary: t)
  case 0
  obtain i ts where t: "t = INode i ts" by (cases t)
  let ?st' = "pushChild st i nd"
  from "0.prems"(1) t have i: "i < length st" by simp
  have sub: "repr ?st' u \<and> i < iroot u \<and> nparent (?st' ! iroot u) = Some i" if u: "u \<in> set ts" for u
  proof -
    from "0.prems"(1) t u have r: "repr st u" "i < iroot u" "nparent (st ! iroot u) = Some i" by auto
    have lt: "i < j" if "j \<in> set (idx u)" for j
      using "0.prems"(2) t u that by auto
    have "?st' ! j = st ! j" if "j \<in> set (idx u)" for j
      using lt[OF that] repr_bound[OF r(1) that] by (simp add: pushChild_other)
    then have "repr ?st' u"
      by (intro repr_frame[OF r(1)]) simp_all
    moreover have "nparent (?st' ! iroot u) = Some i"
      using r repr_bound[OF r(1), of "iroot u"] iroot_in_idx[of u] by (simp add: pushChild_nparent)
    ultimately show ?thesis using r by simp
  qed
  show ?case
    using t i sub "0.prems"(1,4,5) by (auto simp: pushChild_parent)
next
  case (Suc k)
  obtain i ts where t: "t = INode i ts" by (cases t)
  with Suc.prems(3) have ne: "ts \<noteq> []" and len: "k < length (rpath (last ts))"
    by (auto split: if_splits)
  let ?l = "last ts" and ?bs = "butlast ts"
  let ?p = "rpath ?l ! k"
  let ?st' = "pushChild st ?p nd"
  have ts: "ts = ?bs @ [?l]" using ne by simp
  have p: "rpath t ! Suc k = ?p" using t ne by simp
  from Suc.prems(1) t have i: "i < length st" by simp
  have lin: "?l \<in> set ts" using ne by simp
  from Suc.prems(1) t lin have rl: "repr st ?l" "i < iroot ?l" "nparent (st ! iroot ?l) = Some i" by auto
  have pin: "?p \<in> set (idx ?l)" using rpath_subset_idx[of ?l] len by (auto simp: subset_iff)
  have pl: "?p < length st" using repr_bound[OF rl(1) pin] .
  have sorted: "sorted_wrt (<) (i # concat (map idx ?bs) @ idx ?l)"
  proof -
    have "concat (map idx ts) = concat (map idx ?bs) @ idx ?l"
      by (subst ts) simp
    with Suc.prems(2) t show ?thesis by simp
  qed
  then have ip: "i < ?p" and sl: "sorted_wrt (<) (idx ?l)"
    and bp: "\<And>j. j \<in> set (concat (map idx ?bs)) \<Longrightarrow> j < ?p"
    using pin by (auto simp: sorted_wrt_append)
  have IH: "repr ?st' (addAt k (length st) ?l)"
    using Suc.IH[OF rl(1) sl len Suc.prems(4)] Suc.prems(5) p by simp
  have sub: "repr ?st' u \<and> i < iroot u \<and> nparent (?st' ! iroot u) = Some i" if u: "u \<in> set ?bs" for u
  proof -
    from u have "u \<in> set ts" by (rule in_set_butlastD)
    with Suc.prems(1) t have r: "repr st u" "i < iroot u" "nparent (st ! iroot u) = Some i" by auto
    have ne': "j \<noteq> ?p" if "j \<in> set (idx u)" for j
      using bp[of j] u that by auto
    have "?st' ! j = st ! j" if "j \<in> set (idx u)" for j
      using ne'[OF that] repr_bound[OF r(1) that] by (simp add: pushChild_other)
    then have "repr ?st' u"
      by (intro repr_frame[OF r(1)]) simp_all
    moreover have "nparent (?st' ! iroot u) = Some i"
      using r repr_bound[OF r(1), of "iroot u"] iroot_in_idx[of u] by (simp add: pushChild_nparent)
    ultimately show ?thesis using r by simp
  qed
  have root: "?st' ! i = st ! i" using ip i by (simp add: pushChild_other)
  have ch: "map iroot (?bs @ [addAt k (length st) ?l]) = map iroot ts"
    by (subst (2) ts) simp
  have lastp: "nparent (?st' ! iroot ?l) = Some i"
    using rl repr_bound[OF rl(1), of "iroot ?l"] iroot_in_idx[of ?l] by (simp add: pushChild_nparent)
  have "repr ?st' (INode i (?bs @ [addAt k (length st) ?l]))"
    using i root ch Suc.prems(1) t sub IH rl(2) lastp by auto
  then show ?case using t ne p by simp
qed

lemma rpath_parent:
  "repr st t \<Longrightarrow> Suc k < length (rpath t) \<Longrightarrow> nparent (st ! (rpath t ! Suc k)) = Some (rpath t ! k)"
proof (induction k arbitrary: t)
  case 0
  obtain i ts where t: "t = INode i ts" by (cases t)
  with "0.prems" have ne: "ts \<noteq> []" by (auto split: if_splits)
  then have "last ts \<in> set ts" by simp
  with "0.prems"(1) t have "nparent (st ! iroot (last ts)) = Some i" by auto
  then show ?case using t ne by (simp add: hd_conv_nth[symmetric])
next
  case (Suc k)
  obtain i ts where t: "t = INode i ts" by (cases t)
  with Suc.prems have ne: "ts \<noteq> []" and len: "Suc k < length (rpath (last ts))"
    by (auto split: if_splits)
  then have "last ts \<in> set ts" by simp
  with Suc.prems(1) t have "repr st (last ts)" by auto
  from Suc.IH[OF this len] show ?case using t ne by simp
qed

lemma walkUp_rpath:
  "repr st t \<Longrightarrow> Suc curLevel < length (rpath t) \<Longrightarrow> level \<le> curLevel \<Longrightarrow>
     walkUp st level (rpath t ! Suc curLevel) curLevel = Inr (rpath t ! Suc level, level)"
proof (induction curLevel)
  case 0
  then show ?case by (simp add: walkUp.simps)
next
  case (Suc c)
  show ?case
  proof (cases "level = Suc c")
    case True
    then show ?thesis by (simp add: walkUp.simps)
  next
    case False
    with Suc.prems have lt: "level < Suc c" and le: "level \<le> c" by simp_all
    have par: "nparent (st ! (rpath t ! Suc (Suc c))) = Some (rpath t ! Suc c)"
      using rpath_parent[OF Suc.prems(1,2)] .
    have "walkUp st level (rpath t ! Suc c) c = Inr (rpath t ! Suc level, level)"
      using Suc.IH[OF Suc.prems(1) _ le] Suc.prems(2) by simp
    then show ?thesis using lt par by (subst walkUp.simps) simp
  qed
qed

subsection \<open>The loop of \<open>createTree\<close>\<close>

lemma lineMatch_visible:
  "lineContent l \<noteq> [] \<Longrightarrow> lineMatch l = Some (replicate (leadingSpaces l) CHR '' '', lineContent l)"
proof -
  have "takeWhile (\<lambda>c. c = CHR '' '') l = replicate (length (takeWhile (\<lambda>c. c = CHR '' '') l)) CHR '' ''"
    by (induction l) auto
  then show "lineContent l \<noteq> [] \<Longrightarrow> ?thesis"
    by (simp add: lineMatch_def lineContent_def leadingSpaces_def Let_def)
qed

lemma map_ncontent_pushChild:
  "p < length st \<Longrightarrow> map ncontent (pushChild st p nd) = map ncontent st @ [ncontent nd]"
  by (rule nth_equalityI) (auto simp: nth_append pushChild_ncontent less_Suc_eq)

lemma treeInv_root: "treeInv rootState (INode 0 []) []"
  by (simp add: treeInv_def rootState_def)

lemma createTreeStep_parent:
  assumes inv: "treeInv s T ps"
    and vis: "lineContent l \<noteq> []" and ev: "even (leadingSpaces l)"
    and lv: "lineLevel l < length (rpath T)"
  shows "createTreeStep s l =
     Inr \<lparr>store = pushChild (store s) (rpath T ! lineLevel l)
             \<lparr>ncontent = lineContent l, nchildren = [], nparent = Some (rpath T ! lineLevel l)\<rparr>,
          currentNode = length (store s), currentLevel = lineLevel l\<rparr>"
proof -
  let ?lv = "lineLevel l" and ?c = "currentLevel s"
  from inv have r: "repr (store s) T" and root: "iroot T = 0"
    and len: "length (rpath T) = (if ps = [] then 1 else ?c + 2)"
    and cur: "last (rpath T) = currentNode s" and c0: "ps = [] \<longrightarrow> ?c = 0"
    by (simp_all add: treeInv_def)
  have m: "lineMatch l = Some (replicate (leadingSpaces l) CHR '' '', lineContent l)"
    using lineMatch_visible[OF vis] .
  have r0: "rpath T ! 0 = 0" using root by (cases T) simp
  have "?lv = 0 \<or> (?lv \<noteq> 0 \<and> ?lv = ?c) \<or> (?lv \<noteq> 0 \<and> ?lv = ?c + 1) \<or> (?lv \<noteq> 0 \<and> ?lv < ?c)"
  proof (cases "ps = []")
    case True
    with lv len show ?thesis by simp
  next
    case False
    with lv len show ?thesis by simp arith
  qed
  then consider (zero) "?lv = 0" | (same) "?lv \<noteq> 0" "?lv = ?c" | (child) "?lv \<noteq> 0" "?lv = ?c + 1"
    | (up) "?lv \<noteq> 0" "?lv < ?c"
    by auto
  then show ?thesis
  proof cases
    case zero
    then show ?thesis using m ev r0 by (simp add: createTreeStep_def chooseParent_def lineLevel_def)
  next
    case same
    then have ne: "ps \<noteq> []" using c0 by auto
    with len have l2: "length (rpath T) = ?c + 2" by simp
    then have cn: "currentNode s = rpath T ! Suc ?c"
      using cur by (simp add: last_conv_nth)
    have "nparent (store s ! currentNode s) = Some (rpath T ! ?c)"
      unfolding cn by (rule rpath_parent[OF r]) (simp add: l2)
    then show ?thesis using m ev same by (simp add: createTreeStep_def chooseParent_def lineLevel_def)
  next
    case child
    then have ne: "ps \<noteq> []" using lv len by (auto split: if_splits)
    with len have l2: "length (rpath T) = ?c + 2" by simp
    then have cn: "currentNode s = rpath T ! Suc ?c"
      using cur by (simp add: last_conv_nth)
    then show ?thesis using m ev child by (simp add: createTreeStep_def chooseParent_def lineLevel_def)
  next
    case up
    then have ne: "ps \<noteq> []" using c0 by auto
    with len have l2: "length (rpath T) = ?c + 2" by simp
    then have cn: "currentNode s = rpath T ! Suc ?c"
      using cur by (simp add: last_conv_nth)
    have w: "walkUp (store s) ?lv (currentNode s) ?c = Inr (rpath T ! Suc ?lv, ?lv)"
      unfolding cn by (rule walkUp_rpath[OF r]) (use up l2 in auto)
    have "nparent (store s ! (rpath T ! Suc ?lv)) = Some (rpath T ! ?lv)"
      by (rule rpath_parent[OF r]) (use up l2 in auto)
    then show ?thesis using m ev up w by (simp add: createTreeStep_def chooseParent_def lineLevel_def)
  qed
qed

lemma treeInv_step:
  assumes inv: "treeInv s T ps"
    and vis: "lineContent l \<noteq> []" and ev: "even (leadingSpaces l)"
    and lv: "lineLevel l < length (rpath T)"
  shows "\<exists>s'. createTreeStep s l = Inr s'
           \<and> treeInv s' (addAt (lineLevel l) (length (store s)) T) (ps @ [(lineLevel l, lineContent l)])
           \<and> length (rpath (addAt (lineLevel l) (length (store s)) T)) = lineLevel l + 2"
proof -
  let ?lv = "lineLevel l" and ?n = "length (store s)"
  let ?p = "rpath T ! ?lv"
  let ?nd = "\<lparr>ncontent = lineContent l, nchildren = [], nparent = Some ?p\<rparr>"
  let ?s' = "\<lparr>store = pushChild (store s) ?p ?nd, currentNode = ?n, currentLevel = ?lv\<rparr>"
  let ?T' = "addAt ?lv ?n T"
  from inv have r: "repr (store s) T" and root: "iroot T = 0"
    and ix: "idx T = [0 ..< ?n]"
    and dp: "map fst (ilabels 0 T) = 0 # map (\<lambda>p. Suc (fst p)) ps"
    and ct: "map ncontent (store s) = [] # map snd ps"
    by (simp_all add: treeInv_def)
  have step: "createTreeStep s l = Inr ?s'" by (rule createTreeStep_parent[OF assms])
  have srt: "sorted_wrt (<) (idx T)" unfolding ix by (simp add: sorted_wrt_upt)
  have pin: "?p \<in> set (idx T)" using rpath_subset_idx[of T] lv by (auto simp: subset_iff)
  then have pl: "?p < ?n" using ix by simp
  have 1: "repr (store ?s') ?T'"
    using repr_addAt[OF r srt lv, of ?nd] by simp
  have lab: "ilabels 0 ?T' = ilabels 0 T @ [(Suc ?lv, ?n)]"
    using ilabels_addAt[OF lv, of 0 ?n] by simp
  have 2: "idx ?T' = [0 ..< length (store ?s')]"
    using arg_cong[OF lab, of "map snd"] ix by (simp add: map_snd_ilabels)
  have 3: "map fst (ilabels 0 ?T') = 0 # map (\<lambda>p. Suc (fst p)) (ps @ [(?lv, lineContent l)])"
    using lab dp by simp
  have 4: "map ncontent (store ?s') = [] # map snd (ps @ [(?lv, lineContent l)])"
    using map_ncontent_pushChild[OF pl, of ?nd] ct by simp
  have rp: "rpath ?T' = take (Suc ?lv) (rpath T) @ [?n]" by (rule rpath_addAt[OF lv])
  then have 5: "length (rpath ?T') = ?lv + 2" "last (rpath ?T') = ?n" using lv by simp_all
  have "treeInv ?s' ?T' (ps @ [(?lv, lineContent l)])"
    unfolding treeInv_def using 1 2 3 4 5 root by simp
  with step 5 show ?thesis by blast
qed

lemma treeInv_run:
  "treeInv s T ps \<Longrightarrow> wellIndentedFrom (length (rpath T) - 1) ls \<Longrightarrow>
     \<exists>s' T'. foldE createTreeStep ls s = Inr s'
       \<and> treeInv s' T' (ps @ map (\<lambda>l. (lineLevel l, lineContent l)) ls)"
proof (induction ls arbitrary: s T ps)
  case Nil
  then show ?case by auto
next
  case (Cons l ls)
  from Cons.prems(2) have vis: "lineContent l \<noteq> []" and ev: "even (leadingSpaces l)"
    and le: "lineLevel l \<le> length (rpath T) - 1" and rest: "wellIndentedFrom (lineLevel l + 1) ls"
    by simp_all
  have lv: "lineLevel l < length (rpath T)"
    using le rpath_nonempty[of T] by (cases "rpath T") auto
  from treeInv_step[OF Cons.prems(1) vis ev lv] obtain s1 where
    s1: "createTreeStep s l = Inr s1"
    and i1: "treeInv s1 (addAt (lineLevel l) (length (store s)) T) (ps @ [(lineLevel l, lineContent l)])"
    and l1: "length (rpath (addAt (lineLevel l) (length (store s)) T)) = lineLevel l + 2"
    by blast
  from rest l1 have "wellIndentedFrom (length (rpath (addAt (lineLevel l) (length (store s)) T)) - 1) ls"
    by simp
  from Cons.IH[OF i1 this] s1 show ?case by simp
qed

lemma map_label:
  "map (\<lambda>(d, i). (d, f i)) xs = zip (map fst xs) (map (\<lambda>x. f (snd x)) xs)"
  by (induction xs) auto

lemma treeInv_traversal:
  assumes "treeInv s T ps"
  shows "traversal (reify (store s) 0) = ps"
proof -
  from assms have r: "repr (store s) T" and root: "iroot T = 0"
    and ix: "idx T = [0 ..< length (store s)]"
    and dp: "map fst (ilabels 0 T) = 0 # map (\<lambda>p. Suc (fst p)) ps"
    and ct: "map ncontent (store s) = [] # map snd ps"
    by (simp_all add: treeInv_def)
  have "map (\<lambda>x. ncontent (store s ! snd x)) (ilabels 0 T) = map (\<lambda>i. ncontent (store s ! i)) (idx T)"
    by (simp add: map_snd_ilabels[of 0 T, symmetric])
  also have "\<dots> = map ncontent (store s)" unfolding ix by (rule nth_equalityI) simp_all
  finally have c: "map (\<lambda>x. ncontent (store s ! snd x)) (ilabels 0 T) = [] # map snd ps"
    using ct by simp
  have "reify (store s) 0 = erase (store s) T" using repr_reify[OF r] root by simp
  then have "walk 0 (reify (store s) 0) = zip (0 # map (\<lambda>p. Suc (fst p)) ps) ([] # map snd ps)"
    by (simp add: walk_erase map_label dp c)
  then show ?thesis
    by (simp add: traversal_def zip_map_map zip_same_conv_map comp_def split_def)
qed

lemma lineContent_plain:
  "list_all isDot l \<Longrightarrow> lineContent l = dropWhile (\<lambda>c. c = CHR '' '') l"
proof -
  assume a: "list_all isDot l"
  have "takeWhile isDot (drop (leadingSpaces l) l) = drop (leadingSpaces l) l"
    using a by (auto simp: takeWhile_eq_all_conv list_all_iff dest: in_set_dropD)
  then show ?thesis
    by (simp add: lineContent_def leadingSpaces_def dropWhile_eq_drop)
qed

text \<open>
  Claim C1, as stated: for every indentation-consistent input, the builder of each
  interpreter returns a tree whose traversal gives the lines in order, each at the depth
  of half its indentation. The Blizzard builder does not read the indentation: it drops
  the \<open>Time\<close> line and hangs the line \<open>y\<close> below the \<open>Message\<close> heading. The TSM builder
  starts at level \<open>0\<close>: a first line with two spaces becomes a child of the root, at depth
  \<open>0\<close>, and a first line with four spaces is refused.
\<close>

theorem builders_not_by_indentation:
  "indentationConsistent [''Message: x'', ''Time: 1'', ''y'']
   \<and> Blizzard_createTree [''Message: x'', ''Time: 1'', ''y'']
       = Inr (LineInfo [] [LineInfo ''Message: x'' [LineInfo ''y'' []]])
   \<and> traversal (LineInfo [] [LineInfo ''Message: x'' [LineInfo ''y'' []]]) = [(0, ''Message: x''), (1, ''y'')]
   \<and> indentationConsistent [''  a'']
   \<and> TSM_createTree [''  a''] = Inr (LineInfo [] [LineInfo ''a'' []])
   \<and> traversal (LineInfo [] [LineInfo ''a'' []]) = [(0, ''a'')]
   \<and> lineLevel ''  a'' = 1
   \<and> indentationConsistent [''    a'']
   \<and> TSM_createTree [''    a''] = Inl (IndentJump ''    a'')"
  by code_simp

text \<open>
  Claim C1, amended. For every input whose lines have an even number of leading spaces
  followed by a character that is neither a space nor a line terminator, whose first
  line is not indented and in which no line is more than one level deeper than the line
  before it, the TSM builder returns a tree; its depth-first traversal lists the
  lines in their order, each with its content (the line without its leading spaces, up
  to a line terminator) at the depth of half its leading-space count.
\<close>

theorem TSM_createTree_traversal:
  assumes "wellIndented lines"
  shows "\<exists>t. TSM_createTree lines = Inr t
           \<and> traversal t = map (\<lambda>l. (lineLevel l, lineContent l)) lines"
proof -
  have "wellIndentedFrom (length (rpath (INode 0 [])) - 1) lines"
    using assms by (simp add: wellIndented_def)
  from treeInv_run[OF treeInv_root this] obtain s' T' where
    "foldE createTreeStep lines rootState = Inr s'"
    "treeInv s' T' (map (\<lambda>l. (lineLevel l, lineContent l)) lines)"
    by auto
  then show ?thesis
    using treeInv_traversal by (simp add: TSM_createTree_def)
qed

theorem TSM_createTree_traversal_witness:
  "wellIndented lines1
   \<and> TSM_createTree lines1 =
       Inr (LineInfo []
              [LineInfo ''Stack Trace:''
                 [LineInfo ''TSM/Core.lua:10 <f>'' [LineInfo ''a = 1'' []], LineInfo ''[C] <g>'' []],
               LineInfo ''Debug Log:'' []])
   \<and> traversal (projr (TSM_createTree lines1)) =
       [(0, ''Stack Trace:''), (1, ''TSM/Core.lua:10 <f>''), (2, ''a = 1''), (1, ''[C] <g>''),
        (0, ''Debug Log:'')]"
proof -
  have w: "wellIndented lines1" by code_simp
  have e: "TSM_createTree lines1 =
       Inr (LineInfo []
              [LineInfo ''Stack Trace:''
                 [LineInfo ''TSM/Core.lua:10 <f>'' [LineInfo ''a = 1'' []], LineInfo ''[C] <g>'' []],
               LineInfo ''Debug Log:'' []])"
    by code_simp
  have m: "map (\<lambda>l. (lineLevel l, lineContent l)) lines1 =
       [(0, ''Stack Trace:''), (1, ''TSM/Core.lua:10 <f>''), (2, ''a = 1''), (1, ''[C] <g>''),
        (0, ''Debug Log:'')]"
    by code_simp
  from TSM_createTree_traversal[OF w] m have
    "traversal (projr (TSM_createTree lines1)) =
       [(0, ''Stack Trace:''), (1, ''TSM/Core.lua:10 <f>''), (2, ''a = 1''), (1, ''[C] <g>''),
        (0, ''Debug Log:'')]"
    by auto
  with w e show ?thesis by simp
qed

subsection \<open>Refused indentation\<close>

text \<open>
  Claim C4 says that the builder fails on every line with an odd number of leading
  spaces. On a line that has only spaces the expression \<open>/^( *)(.+)/\<close> gives the last space
  to the second group: a line of three spaces is read as two spaces and the content
  \<open>" "\<close>, and is accepted, while a line of four spaces is refused as one of three.
\<close>

theorem blank_line_with_odd_indentation:
  "leadingSpaces ''   '' = 3
   \<and> TSM_createTree [''Stack Trace:'', ''   '']
       = Inr (LineInfo [] [LineInfo ''Stack Trace:'' [LineInfo '' '' []]])
   \<and> TSM_createTree [''Stack Trace:'', ''    ''] = Inl (OddIndentation 3)"
  by code_simp

text \<open>
  What else the claim says holds: a line with an odd number of leading spaces before a
  visible character is refused, and so is a line more than one level deeper than the
  line before it. The walk back up the tree never leaves the root, since a line of
  level \<open>0\<close> does not walk.
\<close>

lemma odd_indentation_step:
  "lineContent l \<noteq> [] \<Longrightarrow> odd (leadingSpaces l) \<Longrightarrow> createTreeStep s l = Inl (OddIndentation (leadingSpaces l))"
  by (simp add: createTreeStep_def lineMatch_visible odd_iff_mod_2_eq_one)

lemma odd_indentation_fails:
  assumes "l \<in> set lines" "lineContent l \<noteq> []" "odd (leadingSpaces l)"
  shows "\<exists>e. TSM_createTree lines = Inl e"
proof -
  have "\<exists>e. foldE createTreeStep lines rootState = Inl e"
    by (rule foldE_fails[OF assms(1)]) (simp add: odd_indentation_step[OF assms(2,3)])
  then show ?thesis by (auto simp: TSM_createTree_def)
qed

lemma lineMatch_level:
  assumes "lineMatch l = Some (spaces, c)" "even (length spaces)"
  shows "length spaces div 2 = lineLevel l"
proof -
  let ?sp = "takeWhile (\<lambda>c. c = CHR '' '') l"
  from assms(1) have "spaces = ?sp \<or> (?sp \<noteq> [] \<and> spaces = tl ?sp)"
    by (auto simp: lineMatch_def Let_def split: if_splits)
  then show ?thesis
  proof
    assume "spaces = ?sp"
    then show ?thesis by (simp add: lineLevel_def leadingSpaces_def)
  next
    assume a: "?sp \<noteq> [] \<and> spaces = tl ?sp"
    then have "length ?sp = Suc (length spaces)" by simp
    with assms(2) show ?thesis by (simp add: lineLevel_def leadingSpaces_def)
  qed
qed

lemma createTreeStep_level:
  assumes "createTreeStep s l = Inr s'"
  shows "currentLevel s' = lineLevel l"
proof -
  from assms have "\<exists>spaces c. lineMatch l = Some (spaces, c) \<and> even (length spaces)
      \<and> currentLevel s' = length spaces div 2"
    by (auto simp: createTreeStep_def even_iff_mod_2_eq_zero
        split: option.splits if_splits sum.splits prod.splits)
  then show ?thesis using lineMatch_level by auto
qed

lemma jump_step:
  assumes "currentLevel s + 1 < lineLevel l"
  shows "\<exists>e. createTreeStep s l = Inl e"
proof (cases "lineMatch l")
  case None
  then show ?thesis by (simp add: createTreeStep_def)
next
  case (Some m)
  obtain spaces c where m: "m = (spaces, c)" by (cases m)
  show ?thesis
  proof (cases "even (length spaces)")
    case False
    with Some m show ?thesis by (simp add: createTreeStep_def odd_iff_mod_2_eq_one)
  next
    case True
    from lineMatch_level[OF Some[unfolded m] True] assms
    show ?thesis using Some m True by (simp add: createTreeStep_def chooseParent_def even_iff_mod_2_eq_zero)
  qed
qed

lemma indentation_jump_fails:
  assumes "lines = pre @ a # b # post" "lineLevel a + 1 < lineLevel b"
  shows "\<exists>e. TSM_createTree lines = Inl e"
proof (cases "foldE createTreeStep (pre @ [a]) rootState")
  case (Inl e)
  then have "foldE createTreeStep lines rootState = Inl e"
    using assms(1) foldE_append[of createTreeStep "pre @ [a]" "b # post" rootState] by simp
  then show ?thesis by (simp add: TSM_createTree_def)
next
  case (Inr s')
  then obtain s0 where "createTreeStep s0 a = Inr s'"
    by (auto simp: foldE_append split: sum.splits)
  then have "currentLevel s' = lineLevel a" by (rule createTreeStep_level)
  with assms(2) obtain e where "createTreeStep s' b = Inl e" using jump_step[of s' b] by auto
  then have "foldE createTreeStep lines rootState = Inl e"
    using assms(1) Inr foldE_append[of createTreeStep "pre @ [a]" "b # post" rootState] by simp
  then show ?thesis by (simp add: TSM_createTree_def)
qed


section \<open>Properties of the debug session\<close>

subsection \<open>The handle registry\<close>

lemma runHandles_start:
  "startHandle h \<le> nextHandle h \<Longrightarrow>
     startHandle (runHandles h ops) = startHandle h \<and> startHandle h \<le> nextHandle (runHandles h ops)"
proof (induction ops arbitrary: h)
  case Nil
  then show ?case by simp
next
  case (Cons x ops)
  show ?case
  proof (cases x)
    case (Create p)
    have "startHandle (snd (Handles_create h p)) \<le> nextHandle (snd (Handles_create h p))"
      using Cons.prems by (simp add: Handles_create_def)
    from Cons.IH[OF this] show ?thesis using Create by (simp add: Handles_create_def)
  next
    case Reset
    have "startHandle (Handles_reset h) \<le> nextHandle (Handles_reset h)"
      by (simp add: Handles_reset_def Handles_new_def)
    from Cons.IH[OF this] show ?thesis using Reset by (simp add: Handles_reset_def Handles_new_def)
  qed
qed

text \<open>
  Claim C7. Resolving the handle that \<open>create\<close> returns for a path gives the path back;
  after \<open>reset\<close> (and so after \<open>continueRequest\<close>) no handle resolves, and a
  \<open>variablesRequest\<close> for a handle issued earlier fails; every handle the session's
  registry issues, after any sequence of \<open>create\<close> and \<open>reset\<close> calls, is above the
  identifier of the Locals scope.
\<close>

theorem handles_create_get_reset:
  "Handles_get (snd (Handles_create h p)) (fst (Handles_create h p)) = Some p
   \<and> Handles_get (Handles_reset h) k = None
   \<and> Handles_get (variableHandles (continueRequest s)) k = None
   \<and> ScopeType_Local < fst (Handles_create (runHandles variableHandles0 ops) p)
   \<and> variablesRequest R (continueRequest (s\<lparr>crashInfo := Some ci\<rparr>))
        \<lparr>variablesReference_arg = fst (Handles_create (runHandles variableHandles0 ops) p),
         filter_arg = f, start_arg = st, count_arg = cnt\<rparr> = Inl TypeError"
proof -
  have a: "startHandle variableHandles0 \<le> nextHandle variableHandles0"
    by (simp add: variableHandles0_def Handles_new_def)
  have b: "ScopeType_Local < nextHandle (runHandles variableHandles0 ops)"
    using runHandles_start[OF a, of ops]
    by (simp add: variableHandles0_def Handles_new_def ScopeType_Local_def)
  then have c: "fst (Handles_create (runHandles variableHandles0 ops) p) \<noteq> ScopeType_Local"
    by (simp add: Handles_create_def)
  show ?thesis
    using b c
    by (simp add: Handles_create_def Handles_get_def Handles_reset_def Handles_new_def
        continueRequest_def variablesRequest_def collectVariables_def)
qed

subsection \<open>The \<open>indexedVariables\<close> hint\<close>



lemma countIndexed_stops:
  "(\<forall>m. k < m \<and> m \<le> countIndexed tbl k \<longrightarrow> hasProp tbl (showNat m))
   \<and> \<not> hasProp tbl (showNat (countIndexed tbl k + 1)) \<and> k \<le> countIndexed tbl k"
proof (induction tbl k rule: countIndexed.induct)
  case (1 tbl n)
  show ?case
  proof (cases "hasProp tbl (showNat (n + 1))")
    case True
    have eq: "countIndexed tbl n = countIndexed tbl (n + 1)"
      using True by (subst countIndexed.simps) simp
    from 1[OF True] have ih:
      "\<And>m. n + 1 < m \<Longrightarrow> m \<le> countIndexed tbl (n + 1) \<Longrightarrow> hasProp tbl (showNat m)"
      "\<not> hasProp tbl (showNat (countIndexed tbl (n + 1) + 1))"
      "n + 1 \<le> countIndexed tbl (n + 1)"
      by auto
    have "hasProp tbl (showNat m)" if "n < m" "m \<le> countIndexed tbl (n + 1)" for m
    proof (cases "m = n + 1")
      case True
      with \<open>hasProp tbl (showNat (n + 1))\<close> show ?thesis by simp
    next
      case False
      with that have "n + 1 < m" by simp
      with that ih(1) show ?thesis by simp
    qed
    with ih(2,3) show ?thesis unfolding eq by simp
  next
    case False
    then have "countIndexed tbl n = n" by (subst countIndexed.simps) simp
    with False show ?thesis by auto
  qed
qed

text \<open>Every table has a run length: the loop stops, at the first missing index.\<close>

lemma contiguousRun_countIndexed: "contiguousRun tbl (countIndexed tbl 0)"
  using countIndexed_stops[of 0 tbl] by (auto simp: contiguousRun_def)





subsection \<open>The order of a response\<close>

lemma bracketted_isNaN: "startsWith s ''[['' \<Longrightarrow> Number_isNaN s"
proof -
  assume "startsWith s ''[[''"
  then obtain r where s: "s = CHR ''['' # CHR ''['' # r"
    by (cases s; cases "tl s") (auto simp: startsWith_def)
  have nw: "\<not> isWhiteSpace CHR ''[''" by (simp add: isWhiteSpace_def)
  have "dropWhile isWhiteSpace (rev r @ ''[['') \<noteq> []"
    by (simp add: dropWhile_append nw)
  then obtain t where t: "trim s = CHR ''['' # t"
    unfolding trim_def s using nw
    by (cases "rev (dropWhile isWhiteSpace (rev r @ ''[[''))")
       (auto simp: dropWhile_append split: if_splits)
  show ?thesis
    unfolding Number_isNaN_def t
    by (simp add: Let_def unsignedDecimal_def startsWith_def nonDecimalLiteral_def isDigit_def)
qed

lemma sortVariables_le: "(sortVariables R a b \<le> 0) = variableOrder R a b"
  using bracketted_isNaN[of "vname a"] bracketted_isNaN[of "vname b"]
  by (auto simp: sortVariables_def variableOrder_def variableRank_def Let_def)

lemma variableOrder_total: "variableOrder R a b \<or> variableOrder R b a"
  by (auto simp: variableOrder_def Let_def)

lemma variableOrder_trans: "variableOrder R a b \<Longrightarrow> variableOrder R b c \<Longrightarrow> variableOrder R a c"
  unfolding variableOrder_def Let_def
  by (auto split: if_splits)

lemma set_insertSorted: "set (insertSorted cmp x xs) = insert x (set xs)"
  by (induction xs) auto

lemma mset_insertSorted: "mset (insertSorted cmp x xs) = add_mset x (mset xs)"
  by (induction xs) auto

lemma mset_arraySort: "mset (arraySort cmp xs) = mset xs"
  by (induction xs) (auto simp: arraySort_def mset_insertSorted)

lemma sorted_insertSorted:
  assumes tot: "\<And>a b. cmp a b \<le> 0 \<or> cmp b a \<le> 0"
    and tr: "\<And>a b c. cmp a b \<le> 0 \<Longrightarrow> cmp b c \<le> 0 \<Longrightarrow> cmp a c \<le> 0"
  shows "sorted_wrt (\<lambda>a b. cmp a b \<le> 0) xs \<Longrightarrow> sorted_wrt (\<lambda>a b. cmp a b \<le> 0) (insertSorted cmp x xs)"
proof (induction xs)
  case Nil
  then show ?case by simp
next
  case (Cons y ys)
  show ?case
  proof (cases "cmp x y \<le> 0")
    case True
    with Cons.prems tr show ?thesis by auto
  next
    case False
    with tot[of x y] have "cmp y x \<le> 0" by simp
    with Cons False show ?thesis by (auto simp: set_insertSorted)
  qed
qed

lemma sorted_arraySort:
  assumes tot: "\<And>a b. cmp a b \<le> 0 \<or> cmp b a \<le> 0"
    and tr: "\<And>a b c. cmp a b \<le> 0 \<Longrightarrow> cmp b c \<le> 0 \<Longrightarrow> cmp a c \<le> 0"
  shows "sorted_wrt (\<lambda>a b. cmp a b \<le> 0) (arraySort cmp xs)"
  unfolding arraySort_def
  by (induction xs) (auto intro: sorted_insertSorted[OF tot tr])

text \<open>
  Claim C9, as stated: after the names that start with \<open>[[\<close> and the numeric names, the
  remaining names are in case-insensitive lexicographic order. \<open>sortVariables\<close> replaces
  the first \<open>[\<close> of a name by a space before it compares, so the name \<open>[x\<close> comes before
  the name \<open>1x\<close>, which is the smaller of the two in that order.
\<close>

theorem bracket_before_digit:
  "(\<forall>R :: nat JSNumbers.
      map_sum id fst (variablesRequest R (session9 [''1x'', ''[x'']) localsArgs)
        = Inr (Body [scalarVariable ''[x'' ''nil'', scalarVariable ''1x'' ''nil'']))
   \<and> toLowerCase ''1x'' < toLowerCase ''[x''"
proof (intro conjI allI)
  fix R :: "nat JSNumbers"
  have 1: "Number_isNaN ''1x''" "Number_isNaN ''[x''" "\<not> startsWith ''1x'' ''[[''" "\<not> startsWith ''[x'' ''[[''"
    "replaceBracket ''[x'' = '' x''" "replaceBracket ''1x'' = ''1x''" "toLowerCase '' x'' = '' x''"
     "toLowerCase ''1x'' = ''1x''" "'' x'' < ''1x''"
    by code_simp+
  have 2: "sortVariables R (scalarVariable ''[x'' ''nil'') (scalarVariable ''1x'' ''nil'') = - 1"
    using 1 by (simp add: sortVariables_def scalarVariable_def Let_def)
  have 3: "sortVariables R (scalarVariable ''1x'' ''nil'') (scalarVariable ''[x'' ''nil'') = 1"
    using 1 by (simp add: sortVariables_def scalarVariable_def Let_def)
  show "map_sum id fst (variablesRequest R (session9 [''1x'', ''[x'']) localsArgs)
        = Inr (Body [scalarVariable ''[x'' ''nil'', scalarVariable ''1x'' ''nil''])"
    using 2 3
    by (simp add: variablesRequest_def session9_def localsArgs_def collectVariables_def
        localVariable_def nilLocal_def arraySort_def ScopeType_Local_def)
next
  show "toLowerCase ''1x'' < toLowerCase ''[x''" by code_simp
qed


text \<open>
  Claim C9, amended. The variables of every response are those \<open>variablesRequest\<close>
  collected, in sorted order: the names that start with \<open>[[\<close> first, then the names that
  \<open>Number\<close> converts to a number, in ascending order of the number, then the other names;
  within the first and the last group the names are compared after their first \<open>[\<close> is
  replaced by a space, by their lower-case forms and, where these are equal, as they are.
\<close>

theorem variables_response_sorted:
  assumes "variablesRequest R s args = Inr (Body vs, s')"
  shows "sorted_wrt (variableOrder R) vs
       \<and> (\<exists>ci variables h. crashInfo s = Some ci \<and> collectVariables R s ci args = Inr (variables, h)
             \<and> mset vs = mset variables)"
proof -
  from assms obtain ci variables h where c: "crashInfo s = Some ci"
    and v: "collectVariables R s ci args = Inr (variables, h)"
    and vs: "vs = arraySort (sortVariables R) variables"
    by (auto simp: variablesRequest_def split: option.splits sum.splits prod.splits)
  have "sorted_wrt (\<lambda>a b. sortVariables R a b \<le> 0) vs"
    unfolding vs
  proof (rule sorted_arraySort)
    show "sortVariables R a b \<le> 0 \<or> sortVariables R b a \<le> 0" for a b
      using variableOrder_total[of R a b] by (simp add: sortVariables_le)
    show "sortVariables R a b \<le> 0 \<Longrightarrow> sortVariables R b c \<le> 0 \<Longrightarrow> sortVariables R a c \<le> 0" for a b c
      using variableOrder_trans[of R a b c] by (simp add: sortVariables_le)
  qed
  then have "sorted_wrt (variableOrder R) vs" by (simp add: sortVariables_le)
  with c v vs show ?thesis by (auto simp: mset_arraySort)
qed

theorem variables_response_sorted_witness:
  "map_sum id fst (variablesRequest R0 (session9 [''b'', ''10'', ''A'', ''[[x'', ''9'', ''[x'']) localsArgs)
     = Inr (Body (map (\<lambda>n. scalarVariable n ''nil'') [''[[x'', ''9'', ''10'', ''[x'', ''A'', ''b'']))
   \<and> sorted_wrt (variableOrder R0)
        (map (\<lambda>n. scalarVariable n ''nil'') [''[[x'', ''9'', ''10'', ''[x'', ''A'', ''b''])"
proof -
  have e: "map_sum id fst (variablesRequest R0 (session9 [''b'', ''10'', ''A'', ''[[x'', ''9'', ''[x'']) localsArgs)
     = Inr (Body (map (\<lambda>n. scalarVariable n ''nil'') [''[[x'', ''9'', ''10'', ''[x'', ''A'', ''b'']))"
    by code_simp
  then obtain s' where
    "variablesRequest R0 (session9 [''b'', ''10'', ''A'', ''[[x'', ''9'', ''[x'']) localsArgs
       = Inr (Body (map (\<lambda>n. scalarVariable n ''nil'') [''[[x'', ''9'', ''10'', ''[x'', ''A'', ''b'']), s')"
    by (cases "variablesRequest R0 (session9 [''b'', ''10'', ''A'', ''[[x'', ''9'', ''[x'']) localsArgs") auto
  from variables_response_sorted[OF this] e show ?thesis by simp
qed


end
